theory Spec2Isabelle
  imports Main "HOL-Library.Word"
begin

unbundle bit_operations_syntax

section \<open>The vtdtr event-queue driver (sys/cddl/dev/vtdtr/vtdtr.c)\<close>

text \<open>
  The driver keeps one bounded queue of event pointers per consumer process in a
  red-black tree ordered by pid. The model is sequential: the two mutex tiers of the
  source serialise every operation, so each operation is a function from the module
  state to a return code and the next module state. Undefined behaviour of the C code
  (a shift by at least the width of the type, a second \<open>free\<close> of one allocation, a
  read through a pointer that is no longer allocated) is a value of type \<open>fault\<close>.
\<close>

subsection \<open>Machine types and constants\<close>

text \<open>On amd64 \<open>size_t\<close> has 64 bits and \<open>int\<close> has 32.\<close>

type_synonym size_t = "64 word"
type_synonym c_int = "32 word"
type_synonym pid_t = int
type_synonym addr = nat

definition BITS :: nat where
  "BITS = 8"

definition sizeof_size_t :: nat where
  "sizeof_size_t = 8"

definition MAX_BITSHIFT :: size_t where
  "MAX_BITSHIFT = push_bit (sizeof_size_t * BITS - 1) 1"

definition VTDTR_BITMASK :: size_t where
  "VTDTR_BITMASK = (MAX_BITSHIFT - 1) OR MAX_BITSHIFT"

definition VTDTR_DEFAULT_SIZE :: size_t where
  "VTDTR_DEFAULT_SIZE = VTDTR_BITMASK"

definition VTDTR_ALL_EVENTS :: size_t where
  "VTDTR_ALL_EVENTS = VTDTR_BITMASK"

text \<open>The errno values of FreeBSD's \<open>sys/errno.h\<close>.\<close>

definition EPERM :: int where "EPERM = 1"
definition ENOENT :: int where "ENOENT = 2"
definition ESRCH :: int where "ESRCH = 3"
definition EBUSY :: int where "EBUSY = 16"

datatype fault = ShiftOutOfRange | DoubleFree | BadPointer

subsection \<open>Data\<close>

text \<open>
  Modelled from the spec: \<open>struct vtdtr_event\<close> and \<open>struct vtdtr_conf\<close> are declared in
  \<open>vtdtr.h\<close>, which is missing. An event is a type tag and an opaque payload; the tag
  is taken at the width of the \<open>size_t\<close> constant the source compares it with. The
  configuration carries the two \<open>size_t\<close> fields that \<open>vtdtr_ioctl\<close> reads.
\<close>

record vtdtr_event =
  ev_type :: size_t
  ev_args :: "8 word list"

record vtdtr_conf =
  conf_max_size :: size_t
  conf_event_flags :: size_t

text \<open>
  \<open>struct vtdtr_qentry\<close>: the entry holds the pointer to the event, not the event.
  The list linkage is the position in the queue's list.
\<close>

record vtdtr_qentry =
  event :: addr

text \<open>
  \<open>struct vtdtr_queue\<close>. \<open>proc\<close> is the owning process, of which the source reads only
  \<open>p_pid\<close>; \<open>head\<close> is the STAILQ in order from its first entry to its tail. The mutex
  and the tree linkage carry no data.
\<close>

record vtdtr_queue =
  proc :: pid_t
  head :: "vtdtr_qentry list"
  max_size :: size_t
  num_entries :: size_t
  event_flags :: size_t
  drops :: size_t

text \<open>
  The state of the module: the tree of queues as its in-order list, the function-static
  flag \<open>first\<close> of \<open>vtdtr_ioctl\<close>, and the event records allocated from \<open>M_TEMP\<close>, as a
  store from addresses to records.
\<close>

record vtdtr_state =
  vtdtr_queue_tree :: "vtdtr_queue list"
  first :: int
  m_temp :: "addr \<rightharpoonup> vtdtr_event"

text \<open>
  Modelled from the spec: the calling thread. \<open>td_proc\<close> is the pid of its process and
  \<open>td_priv_dtrace_kernel\<close> the verdict of the host's \<open>priv_check(td, PRIV_DTRACE_KERNEL)\<close>,
  0 when the privilege is held and an errno otherwise.
\<close>

record thread =
  td_proc :: pid_t
  td_priv_dtrace_kernel :: int

definition priv_check :: "thread \<Rightarrow> int" where
  "priv_check td = td_priv_dtrace_kernel td"

text \<open>
  Modelled from the spec: the control codes. \<open>VTDTRIOC_CONF\<close> is defined in the missing
  \<open>vtdtr.h\<close>; every other value of \<open>cmd\<close> takes the \<open>default\<close> branch.
\<close>

datatype ioctl_cmd = VTDTRIOC_CONF | OtherCmd nat

text \<open>The caller's buffer of a \<open>read\<close>: the room left and the records transferred so far.\<close>

record uio =
  uio_resid :: nat
  uio_data :: "vtdtr_event list"

subsection \<open>The tree of queues\<close>

definition qtreecmp :: "vtdtr_queue \<Rightarrow> vtdtr_queue \<Rightarrow> int" where
  "qtreecmp q1 q2 =
     (if proc q1 = proc q2 then 0 else (if proc q1 < proc q2 then -1 else 1))"

text \<open>
  The operations that \<open>RB_GENERATE_STATIC\<close> produces, on the in-order list of the tree.
  \<open>RB_INSERT\<close> leaves the tree as it is when an element that compares equal is present.
\<close>

fun RB_FIND :: "vtdtr_queue list \<Rightarrow> vtdtr_queue \<Rightarrow> vtdtr_queue option" where
  "RB_FIND [] elm = None"
| "RB_FIND (q # qs) elm = (if qtreecmp elm q = 0 then Some q else RB_FIND qs elm)"

fun RB_INSERT :: "vtdtr_queue list \<Rightarrow> vtdtr_queue \<Rightarrow> vtdtr_queue list" where
  "RB_INSERT [] elm = [elm]"
| "RB_INSERT (q # qs) elm =
     (if qtreecmp elm q = 0 then q # qs
      else if qtreecmp elm q < 0 then elm # q # qs
      else q # RB_INSERT qs elm)"

fun RB_REMOVE :: "vtdtr_queue list \<Rightarrow> vtdtr_queue \<Rightarrow> vtdtr_queue list" where
  "RB_REMOVE [] elm = []"
| "RB_REMOVE (q # qs) elm =
     (if qtreecmp elm q = 0 then qs else q # RB_REMOVE qs elm)"

text \<open>A write through the pointer that \<open>RB_FIND\<close> returned: the node is replaced in place.\<close>

fun store_queue :: "vtdtr_queue list \<Rightarrow> vtdtr_queue \<Rightarrow> vtdtr_queue list" where
  "store_queue [] q' = []"
| "store_queue (q # qs) q' =
     (if qtreecmp q' q = 0 then q' # qs else q # store_queue qs q')"

text \<open>
  The stack variable \<open>tmp\<close> of the source, of which only \<open>proc\<close> is set and only \<open>proc\<close>
  is read by \<open>qtreecmp\<close>.
\<close>

definition tmp_queue :: "pid_t \<Rightarrow> vtdtr_queue" where
  "tmp_queue p =
     \<lparr>proc = p, head = [], max_size = 0, num_entries = 0, event_flags = 0, drops = 0\<rparr>"

subsection \<open>Admission\<close>

definition vtdtr_construct_entry :: "addr \<Rightarrow> vtdtr_qentry" where
  "vtdtr_construct_entry e = \<lparr>event = e\<rparr>"

text \<open>
  \<open>vtdtr_subscribed\<close> reads \<open>e->type\<close> through the pointer, compares it with
  \<open>MAX_BITSHIFT\<close>, shifts, and returns the \<open>size_t\<close> result converted to \<open>int\<close>, which
  keeps the low 32 bits. A shift of a 64-bit value by 64 or more is undefined.
\<close>

definition vtdtr_subscribed ::
  "(addr \<rightharpoonup> vtdtr_event) \<Rightarrow> vtdtr_queue \<Rightarrow> addr \<Rightarrow> fault + c_int" where
  "vtdtr_subscribed mem q e =
     (case mem e of
        None \<Rightarrow> Inl BadPointer
      | Some ev \<Rightarrow>
          if ev_type ev > MAX_BITSHIFT then Inr 0
          else if sizeof_size_t * BITS \<le> unat (ev_type ev) then Inl ShiftOutOfRange
          else Inr (ucast (event_flags q AND push_bit (unat (ev_type ev)) (1 :: size_t))))"

text \<open>The body of the loop of \<open>vtdtr_enqueue\<close>, for one queue.\<close>

definition vtdtr_enqueue_queue ::
  "(addr \<rightharpoonup> vtdtr_event) \<Rightarrow> vtdtr_queue \<Rightarrow> addr \<Rightarrow> fault + vtdtr_queue" where
  "vtdtr_enqueue_queue mem q e =
     (if num_entries q \<ge> max_size q then Inr (q\<lparr>drops := drops q + 1\<rparr>)
      else
        (case vtdtr_subscribed mem q e of
           Inl f \<Rightarrow> Inl f
         | Inr r \<Rightarrow>
             if r \<noteq> 0
             then Inr (q\<lparr>head := head q @ [vtdtr_construct_entry e],
                          num_entries := num_entries q + 1\<rparr>)
             else Inr q))"

text \<open>\<open>RB_FOREACH_SAFE\<close> over the tree, in order.\<close>

fun vtdtr_enqueue_loop ::
  "(addr \<rightharpoonup> vtdtr_event) \<Rightarrow> vtdtr_queue list \<Rightarrow> addr \<Rightarrow> fault + vtdtr_queue list" where
  "vtdtr_enqueue_loop mem [] e = Inr []"
| "vtdtr_enqueue_loop mem (q # qs) e =
     (case vtdtr_enqueue_queue mem q e of
        Inl f \<Rightarrow> Inl f
      | Inr q' \<Rightarrow>
          (case vtdtr_enqueue_loop mem qs e of
             Inl f \<Rightarrow> Inl f
           | Inr qs' \<Rightarrow> Inr (q' # qs')))"

definition vtdtr_enqueue :: "vtdtr_state \<Rightarrow> addr \<Rightarrow> fault + vtdtr_state" where
  "vtdtr_enqueue s e =
     (case vtdtr_enqueue_loop (m_temp s) (vtdtr_queue_tree s) e of
        Inl f \<Rightarrow> Inl f
      | Inr qs' \<Rightarrow> Inr (s\<lparr>vtdtr_queue_tree := qs'\<rparr>))"

subsection \<open>The device operations\<close>

text \<open>\<open>vtdtr_read\<close> returns 0 and touches neither the queue nor the buffer.\<close>

definition vtdtr_read :: "vtdtr_state \<Rightarrow> uio \<Rightarrow> int \<times> vtdtr_state \<times> uio" where
  "vtdtr_read s u = (0, s, u)"

definition vtdtr_ioctl ::
  "vtdtr_state \<Rightarrow> ioctl_cmd \<Rightarrow> vtdtr_conf option \<Rightarrow> thread \<Rightarrow> int \<times> vtdtr_state" where
  "vtdtr_ioctl s cmd conf td =
     (case cmd of
        VTDTRIOC_CONF \<Rightarrow>
          if first s = 0 then (EBUSY, s)
          else
            (let s1 = s\<lparr>first := 0\<rparr> in
             case RB_FIND (vtdtr_queue_tree s1) (tmp_queue (td_proc td)) of
               None \<Rightarrow> (ENOENT, s1)
             | Some q \<Rightarrow>
                 (let max_size' =
                        (case conf of
                           None \<Rightarrow> VTDTR_DEFAULT_SIZE
                         | Some c \<Rightarrow>
                             if conf_max_size c \<noteq> 0 then conf_max_size c
                             else VTDTR_DEFAULT_SIZE);
                      event_flags' =
                        (case conf of
                           None \<Rightarrow> VTDTR_ALL_EVENTS
                         | Some c \<Rightarrow>
                             if conf_event_flags c \<noteq> 0 then conf_event_flags c
                             else VTDTR_ALL_EVENTS)
                  in (0, s1\<lparr>vtdtr_queue_tree :=
                              store_queue (vtdtr_queue_tree s1)
                                (q\<lparr>max_size := max_size', event_flags := event_flags'\<rparr>)\<rparr>)))
      | OtherCmd c \<Rightarrow> (0, s))"

text \<open>
  \<open>vtdtr_open\<close>: the queue comes from \<open>malloc\<close> with \<open>M_ZERO\<close>, and only \<open>proc\<close> and
  the empty list are set afterwards.
\<close>

definition vtdtr_open :: "vtdtr_state \<Rightarrow> thread \<Rightarrow> int \<times> vtdtr_state" where
  "vtdtr_open s td =
     (let error = priv_check td in
      if error \<noteq> 0 then (error, s)
      else
        (case RB_FIND (vtdtr_queue_tree s) (tmp_queue (td_proc td)) of
           Some q \<Rightarrow> (EBUSY, s)
         | None \<Rightarrow>
             (let q = \<lparr>proc = td_proc td, head = [], max_size = 0, num_entries = 0,
                       event_flags = 0, drops = 0\<rparr>
              in (0, s\<lparr>vtdtr_queue_tree := RB_INSERT (vtdtr_queue_tree s) q\<rparr>))))"

text \<open>
  \<open>vtdtr_flush\<close> walks the list and frees the event of every entry, then the entry.
  The result is the store of events afterwards.
\<close>

fun vtdtr_flush ::
  "(addr \<rightharpoonup> vtdtr_event) \<Rightarrow> vtdtr_qentry list \<Rightarrow> fault + (addr \<rightharpoonup> vtdtr_event)" where
  "vtdtr_flush mem [] = Inr mem"
| "vtdtr_flush mem (ent # ents) =
     (case mem (event ent) of
        None \<Rightarrow> Inl DoubleFree
      | Some ev \<Rightarrow> vtdtr_flush (mem(event ent := None)) ents)"

definition vtdtr_close :: "vtdtr_state \<Rightarrow> thread \<Rightarrow> fault + (int \<times> vtdtr_state)" where
  "vtdtr_close s td =
     (case RB_FIND (vtdtr_queue_tree s) (tmp_queue (td_proc td)) of
        None \<Rightarrow> Inr (ESRCH, s)
      | Some q \<Rightarrow>
          (let tree' = RB_REMOVE (vtdtr_queue_tree s) q in
           case vtdtr_flush (m_temp s) (head q) of
             Inl f \<Rightarrow> Inl f
           | Inr mem' \<Rightarrow> Inr (0, s\<lparr>vtdtr_queue_tree := tree', m_temp := mem'\<rparr>)))"

subsection \<open>Runs of the module\<close>

text \<open>
  The state after \<open>MOD_LOAD\<close>: an empty tree, and \<open>first\<close> at its initialiser.
\<close>

definition vtdtr_init :: vtdtr_state where
  "vtdtr_init = \<lparr>vtdtr_queue_tree = [], first = 1, m_temp = Map.empty\<rparr>"

text \<open>
  One call into the module, or one step of the producer: \<open>EvAlloc\<close> is the producer's
  \<open>malloc\<close> of an event record, \<open>EvFree\<close> a \<open>free\<close> of it outside the module. The
  return codes go to the caller and are not part of the state. \<open>malloc\<close> never returns
  an address that is in use, so a run with such an \<open>EvAlloc\<close> is cut at that step, as a
  run is at any undefined step.
\<close>

datatype call =
    Open thread
  | Close thread
  | Ioctl ioctl_cmd "vtdtr_conf option" thread
  | Read uio
  | Enqueue addr
  | EvAlloc addr vtdtr_event
  | EvFree addr

fun exec_call :: "vtdtr_state \<Rightarrow> call \<Rightarrow> fault + vtdtr_state" where
  "exec_call s (Open td) = Inr (snd (vtdtr_open s td))"
| "exec_call s (Close td) =
     (case vtdtr_close s td of Inl f \<Rightarrow> Inl f | Inr (rc, s') \<Rightarrow> Inr s')"
| "exec_call s (Ioctl cmd conf td) = Inr (snd (vtdtr_ioctl s cmd conf td))"
| "exec_call s (Read u) = Inr (fst (snd (vtdtr_read s u)))"
| "exec_call s (Enqueue e) = vtdtr_enqueue s e"
| "exec_call s (EvAlloc a ev) =
     (if a \<in> dom (m_temp s) then Inl BadPointer
      else Inr (s\<lparr>m_temp := (m_temp s)(a \<mapsto> ev)\<rparr>))"
| "exec_call s (EvFree a) =
     (if a \<in> dom (m_temp s) then Inr (s\<lparr>m_temp := (m_temp s)(a := None)\<rparr>)
      else Inl DoubleFree)"

fun run :: "vtdtr_state \<Rightarrow> call list \<Rightarrow> fault + vtdtr_state" where
  "run s [] = Inr s"
| "run s (c # cs) = (case exec_call s c of Inl f \<Rightarrow> Inl f | Inr s' \<Rightarrow> run s' cs)"

subsection \<open>Invariants\<close>

text \<open>
  A queue is well formed when its counter of entries is at most its capacity and is
  the length of its list.
\<close>

definition queue_ok :: "vtdtr_queue \<Rightarrow> bool" where
  "queue_ok q \<longleftrightarrow> num_entries q \<le> max_size q \<and> unat (num_entries q) = length (head q)"

text \<open>
  The invariant of the module: every queue is well formed, and while the flag \<open>first\<close>
  of \<open>vtdtr_ioctl\<close> is still set no queue has been given a capacity.
\<close>

definition length_inv :: "vtdtr_state \<Rightarrow> bool" where
  "length_inv s \<longleftrightarrow>
     (\<forall>q \<in> set (vtdtr_queue_tree s). queue_ok q) \<and>
     (first s \<noteq> 0 \<longrightarrow> (\<forall>q \<in> set (vtdtr_queue_tree s). max_size q = 0))"

text \<open>
  The queues that have been given a capacity. While \<open>first\<close> is set there is none, and
  there is never more than one: only one \<open>VTDTRIOC_CONF\<close> call ever passes the gate.
\<close>

definition configured :: "vtdtr_queue list \<Rightarrow> vtdtr_queue list" where
  "configured qs = filter (\<lambda>q. max_size q \<noteq> 0) qs"

definition conf_inv :: "vtdtr_state \<Rightarrow> bool" where
  "conf_inv s \<longleftrightarrow>
     (first s \<noteq> 0 \<longrightarrow> configured (vtdtr_queue_tree s) = []) \<and>
     length (configured (vtdtr_queue_tree s)) \<le> 1"

text \<open>At most one queue per process: the pids in the tree are pairwise different.\<close>

definition pid_inv :: "vtdtr_state \<Rightarrow> bool" where
  "pid_inv s \<longleftrightarrow> distinct (map proc (vtdtr_queue_tree s))"

subsection \<open>The words of the specification\<close>

text \<open>
  The three outcomes of offering the event at \<open>e\<close> to a queue, as a relation between the
  queue before and after: admitted (appended, the length counted), dropped (the drop
  counted), ignored (nothing changes).
\<close>

definition offered :: "vtdtr_queue \<Rightarrow> addr \<Rightarrow> vtdtr_queue \<Rightarrow> bool" where
  "offered q e q' \<longleftrightarrow>
     q' = q\<lparr>head := head q @ [\<lparr>event = e\<rparr>], num_entries := num_entries q + 1\<rparr> \<or>
     q' = q\<lparr>drops := drops q + 1\<rparr> \<or>
     q' = q"

text \<open>
  The contract of \<open>Drain\<close> in the words of the specification: remove up to \<open>n\<close> entries
  from the head of the list, decrement the length by the number removed, and return the
  removed records in the order of their admission.
\<close>

definition drain_contract ::
  "(addr \<rightharpoonup> vtdtr_event) \<Rightarrow> vtdtr_queue \<Rightarrow> nat \<Rightarrow> vtdtr_event list \<times> vtdtr_queue" where
  "drain_contract mem q n =
     (let k = min n (length (head q))
      in (concat (map (\<lambda>ent. case mem (event ent) of None \<Rightarrow> [] | Some ev \<Rightarrow> [ev])
                   (take k (head q))),
          q\<lparr>head := drop k (head q), num_entries := num_entries q - of_nat k\<rparr>))"

text \<open>
  \<open>vtdtr_read\<close> meets the contract for the queue of process \<open>p\<close> when it reports success,
  appends the drained records to the buffer and leaves the drained queue in the tree.
\<close>

definition read_meets_drain_contract :: "vtdtr_state \<Rightarrow> pid_t \<Rightarrow> uio \<Rightarrow> bool" where
  "read_meets_drain_contract s p u =
     (case RB_FIND (vtdtr_queue_tree s) (tmp_queue p) of
        None \<Rightarrow> True
      | Some q \<Rightarrow>
          (case vtdtr_read s u of
             (rc, s', u') \<Rightarrow>
               rc = 0 \<and>
               uio_data u' = uio_data u @ fst (drain_contract (m_temp s) q (uio_resid u)) \<and>
               RB_FIND (vtdtr_queue_tree s') (tmp_queue p) =
                 Some (snd (drain_contract (m_temp s) q (uio_resid u)))))"

subsection \<open>A consumer, its configuration and a run that fills its queue\<close>

definition consumer_td :: thread where
  "consumer_td = \<lparr>td_proc = 1, td_priv_dtrace_kernel = 0\<rparr>"

definition other_td :: thread where
  "other_td = \<lparr>td_proc = 2, td_priv_dtrace_kernel = 0\<rparr>"

definition event_a :: vtdtr_event where
  "event_a = \<lparr>ev_type = 0, ev_args = []\<rparr>"

definition event_b :: vtdtr_event where
  "event_b = \<lparr>ev_type = 1, ev_args = []\<rparr>"

definition conf_small :: vtdtr_conf where
  "conf_small = \<lparr>conf_max_size = 1, conf_event_flags = 1\<rparr>"

definition calls_fill :: "call list" where
  "calls_fill =
     [Open consumer_td, Ioctl VTDTRIOC_CONF (Some conf_small) consumer_td,
      EvAlloc 0 event_a, Enqueue 0]"

definition queue_full :: vtdtr_queue where
  "queue_full =
     \<lparr>proc = 1, head = [\<lparr>event = 0\<rparr>], max_size = 1, num_entries = 1, event_flags = 1,
      drops = 0\<rparr>"

definition state_full :: vtdtr_state where
  "state_full =
     \<lparr>vtdtr_queue_tree = [queue_full], first = 0, m_temp = [0 \<mapsto> event_a]\<rparr>"

text \<open>The queue as \<open>vtdtr_open\<close> leaves it for the process with pid \<open>p\<close>.\<close>

definition queue_opened :: "pid_t \<Rightarrow> vtdtr_queue" where
  "queue_opened p =
     \<lparr>proc = p, head = [], max_size = 0, num_entries = 0, event_flags = 0, drops = 0\<rparr>"

text \<open>The same queue after a \<open>VTDTRIOC_CONF\<close> that passes no overrides.\<close>

definition queue_configured :: "pid_t \<Rightarrow> vtdtr_queue" where
  "queue_configured p =
     (queue_opened p)\<lparr>max_size := VTDTR_DEFAULT_SIZE, event_flags := VTDTR_ALL_EVENTS\<rparr>"

text \<open>An event whose type is the width of \<open>size_t\<close>, and a configuration of zeros.\<close>

definition event_wide :: vtdtr_event where
  "event_wide = \<lparr>ev_type = 64, ev_args = []\<rparr>"

definition conf_zero :: vtdtr_conf where
  "conf_zero = \<lparr>conf_max_size = 0, conf_event_flags = 0\<rparr>"

text \<open>Two consumers, of which the first is configured, and an event ready to dispatch.\<close>

definition calls_two :: "call list" where
  "calls_two =
     [Open consumer_td, Open other_td, Ioctl VTDTRIOC_CONF (Some conf_small) consumer_td,
      EvAlloc 0 event_a]"

definition state_two :: vtdtr_state where
  "state_two =
     \<lparr>vtdtr_queue_tree =
        [\<lparr>proc = 1, head = [], max_size = 1, num_entries = 0, event_flags = 1, drops = 0\<rparr>,
         queue_opened 2],
      first = 0, m_temp = [0 \<mapsto> event_a]\<rparr>"

text \<open>
  Two queues with the default configuration and one allocated event. No run of the
  module reaches this state (only one queue is ever configured); it is an input of
  \<open>vtdtr_enqueue\<close> and \<open>vtdtr_flush\<close> as functions.
\<close>

definition state_shared :: vtdtr_state where
  "state_shared =
     \<lparr>vtdtr_queue_tree = [queue_configured 1, queue_configured 2], first = 0,
      m_temp = [0 \<mapsto> event_a]\<rparr>"

section \<open>Properties of the model\<close>

subsection \<open>Constants and the tree\<close>

lemma MAX_BITSHIFT_val: "MAX_BITSHIFT = 9223372036854775808"
  by (simp add: MAX_BITSHIFT_def sizeof_size_t_def BITS_def)

lemma VTDTR_BITMASK_val: "VTDTR_BITMASK = - 1"
  by (simp add: VTDTR_BITMASK_def MAX_BITSHIFT_val)

lemma qtreecmp_eq_0: "qtreecmp a b = 0 \<longleftrightarrow> proc a = proc b"
  by (simp add: qtreecmp_def)

lemma RB_FIND_None: "RB_FIND qs elm = None \<longleftrightarrow> proc elm \<notin> proc ` set qs"
  by (induction qs) (auto simp: qtreecmp_eq_0)

lemma RB_FIND_Some: "RB_FIND qs elm = Some q \<Longrightarrow> q \<in> set qs \<and> proc q = proc elm"
  by (induction qs) (auto simp: qtreecmp_eq_0 split: if_splits)

lemma RB_FIND_cong_key: "proc a = proc b \<Longrightarrow> RB_FIND qs a = RB_FIND qs b"
  by (induction qs) (auto simp: qtreecmp_eq_0)

lemma set_RB_INSERT: "set (RB_INSERT qs q) \<subseteq> insert q (set qs)"
  by (induction qs) auto

lemma proc_RB_INSERT:
  "proc q \<notin> proc ` set qs \<Longrightarrow> set (map proc (RB_INSERT qs q)) = insert (proc q) (proc ` set qs)"
  by (induction qs) (auto simp: qtreecmp_eq_0)

lemma distinct_RB_INSERT:
  "distinct (map proc qs) \<Longrightarrow> proc q \<notin> proc ` set qs \<Longrightarrow>
     distinct (map proc (RB_INSERT qs q))"
proof (induction qs)
  case Nil
  then show ?case by simp
next
  case (Cons x xs)
  have "proc ` set (RB_INSERT xs q) \<subseteq> insert (proc q) (proc ` set xs)"
    using set_RB_INSERT [of xs q] by auto
  with Cons show ?case
    by (auto simp: qtreecmp_eq_0)
qed

lemma RB_FIND_RB_INSERT:
  "RB_FIND qs elm = None \<Longrightarrow> proc elm = proc q \<Longrightarrow> RB_FIND (RB_INSERT qs q) elm = Some q"
  by (induction qs) (auto simp: qtreecmp_eq_0 split: if_splits)

lemma set_RB_REMOVE: "set (RB_REMOVE qs q) \<subseteq> set qs"
  by (induction qs) auto

lemma distinct_RB_REMOVE:
  "distinct (map proc qs) \<Longrightarrow> distinct (map proc (RB_REMOVE qs q))"
proof (induction qs)
  case Nil
  then show ?case by simp
next
  case (Cons x xs)
  have "proc ` set (RB_REMOVE xs q) \<subseteq> proc ` set xs"
    using set_RB_REMOVE [of xs q] by auto
  with Cons show ?case by auto
qed

lemma RB_FIND_RB_REMOVE:
  "distinct (map proc qs) \<Longrightarrow> proc elm = proc q \<Longrightarrow> RB_FIND (RB_REMOVE qs q) elm = None"
proof (induction qs)
  case Nil
  then show ?case by simp
next
  case (Cons x xs)
  show ?case
  proof (cases "proc q = proc x")
    case True
    with Cons.prems show ?thesis
      by (simp add: qtreecmp_eq_0 RB_FIND_None)
  next
    case False
    with Cons show ?thesis
      by (simp add: qtreecmp_eq_0)
  qed
qed

lemma map_proc_store_queue: "map proc (store_queue qs q') = map proc qs"
  by (induction qs) (auto simp: qtreecmp_eq_0)

lemma set_store_queue: "set (store_queue qs q') \<subseteq> insert q' (set qs)"
  by (induction qs) auto

lemma RB_FIND_store_queue:
  "RB_FIND qs elm = Some q \<Longrightarrow> proc q' = proc elm \<Longrightarrow> RB_FIND (store_queue qs q') elm = Some q'"
  by (induction qs) (auto simp: qtreecmp_eq_0 split: if_splits)

lemma RB_FIND_store_queue_other:
  "proc q' \<noteq> proc elm \<Longrightarrow> RB_FIND (store_queue qs q') elm = RB_FIND qs elm"
  by (induction qs) (auto simp: qtreecmp_eq_0 split: if_splits)

subsection \<open>The subscription test\<close>

lemma and_push_bit_eq_0: "\<not> bit w n \<Longrightarrow> w AND push_bit n 1 = (0 :: size_t)"
  by (rule bit_eqI) (auto simp: bit_simps)

lemma and_exp_eq_0: "\<not> bit w n \<Longrightarrow> w AND 2 ^ n = (0 :: size_t)"
  using and_push_bit_eq_0 [of w n] by simp

lemma ucast_all_events_bit:
  assumes "n < 32"
  shows "(ucast ((- 1 :: size_t) AND push_bit n 1) :: c_int) \<noteq> 0"
proof -
  have "bit (ucast ((- 1 :: size_t) AND push_bit n 1) :: c_int) n"
    using assms by (simp add: bit_simps)
  then show ?thesis by auto
qed

lemma ucast_all_events_exp: "n < 32 \<Longrightarrow> (ucast ((2 :: size_t) ^ n) :: c_int) \<noteq> 0"
  using ucast_all_events_bit [of n] by simp

lemma vtdtr_subscribed_unset:
  assumes "mem e = Some ev" and "ev_type ev < 64"
    and "\<not> bit (event_flags q) (unat (ev_type ev))"
  shows "vtdtr_subscribed mem q e = Inr 0"
proof -
  from assms(2) have "unat (ev_type ev) < 64"
    by (simp add: word_less_nat_alt)
  moreover from assms(2) have "\<not> MAX_BITSHIFT < ev_type ev"
    by (simp add: MAX_BITSHIFT_val word_less_nat_alt)
  ultimately show ?thesis
    using assms(1,3)
    by (simp add: vtdtr_subscribed_def sizeof_size_t_def BITS_def and_exp_eq_0)
qed

lemma vtdtr_subscribed_all_events:
  assumes "mem e = Some ev" and "ev_type ev < 32" and "event_flags q = VTDTR_ALL_EVENTS"
  shows "\<exists>r. vtdtr_subscribed mem q e = Inr r \<and> r \<noteq> 0"
proof -
  from assms(2) have n: "unat (ev_type ev) < 32"
    by (simp add: word_less_nat_alt)
  moreover from assms(2) have "\<not> MAX_BITSHIFT < ev_type ev"
    by (simp add: MAX_BITSHIFT_val word_less_nat_alt)
  ultimately show ?thesis
    using assms(1,3) ucast_all_events_exp [OF n]
    by (simp add: vtdtr_subscribed_def sizeof_size_t_def BITS_def VTDTR_ALL_EVENTS_def
        VTDTR_BITMASK_val)
qed

lemma vtdtr_subscribed_shift_out_of_range:
  assumes "mem e = Some ev" and "64 \<le> ev_type ev" and "ev_type ev \<le> MAX_BITSHIFT"
  shows "vtdtr_subscribed mem q e = Inl ShiftOutOfRange"
proof -
  from assms(2) have "64 \<le> unat (ev_type ev)"
    by (simp add: word_le_nat_alt)
  with assms(1,3) show ?thesis
    by (simp add: vtdtr_subscribed_def sizeof_size_t_def BITS_def)
qed

subsection \<open>The loop of the dispatch\<close>

lemma vtdtr_enqueue_loop_all2:
  "vtdtr_enqueue_loop mem qs e = Inr qs' \<Longrightarrow>
     list_all2 (\<lambda>q q'. vtdtr_enqueue_queue mem q e = Inr q') qs qs'"
  by (induction qs arbitrary: qs') (auto split: sum.splits)

lemma vtdtr_enqueue_queue_proc:
  "vtdtr_enqueue_queue mem q e = Inr q' \<Longrightarrow> proc q' = proc q"
  by (auto simp: vtdtr_enqueue_queue_def split: if_splits sum.splits)

lemma vtdtr_enqueue_queue_max_size:
  "vtdtr_enqueue_queue mem q e = Inr q' \<Longrightarrow> max_size q' = max_size q"
  by (auto simp: vtdtr_enqueue_queue_def split: if_splits sum.splits)

lemma vtdtr_enqueue_loop_proc:
  "vtdtr_enqueue_loop mem qs e = Inr qs' \<Longrightarrow> map proc qs' = map proc qs"
  by (induction qs arbitrary: qs') (auto split: sum.splits dest: vtdtr_enqueue_queue_proc)

lemma vtdtr_enqueue_loop_RB_FIND:
  "vtdtr_enqueue_loop mem qs e = Inr qs' \<Longrightarrow> RB_FIND qs elm = Some q \<Longrightarrow>
     \<exists>q'. vtdtr_enqueue_queue mem q e = Inr q' \<and> RB_FIND qs' elm = Some q'"
  by (induction qs arbitrary: qs')
     (auto simp: qtreecmp_eq_0 split: sum.splits if_splits dest: vtdtr_enqueue_queue_proc)

lemma vtdtr_enqueue_loop_member:
  "vtdtr_enqueue_loop mem qs e = Inr qs' \<Longrightarrow> q' \<in> set qs' \<Longrightarrow>
     \<exists>q \<in> set qs. vtdtr_enqueue_queue mem q e = Inr q'"
  by (induction qs arbitrary: qs') (auto split: sum.splits)

lemma vtdtr_enqueue_queue_ok:
  assumes "vtdtr_enqueue_queue mem q e = Inr q'" and "queue_ok q"
  shows "queue_ok q'"
proof (cases "max_size q \<le> num_entries q")
  case True
  with assms show ?thesis
    by (auto simp: vtdtr_enqueue_queue_def queue_ok_def)
next
  case False
  then have lt: "num_entries q < max_size q" by simp
  then have le: "num_entries q + 1 \<le> max_size q"
    by (rule inc_le)
  have "unat (num_entries q) < unat (max_size q)"
    using lt by (simp add: word_less_nat_alt)
  moreover have "unat (max_size q) < 2 ^ 64"
    using unsigned_less [of "max_size q", where ?'a = nat] by simp
  ultimately have "unat (num_entries q) + unat (1 :: size_t) < 2 ^ LENGTH(64)"
    by simp
  then have un: "unat (num_entries q + 1) = Suc (unat (num_entries q))"
    by (simp add: unat_add_lem [THEN iffD1])
  from assms False le un show ?thesis
    by (auto simp: vtdtr_enqueue_queue_def queue_ok_def split: sum.splits if_splits)
qed


lemma vtdtr_enqueue_queue_offered:
  "vtdtr_enqueue_queue mem q e = Inr q' \<Longrightarrow> offered q e q'"
  by (auto simp: vtdtr_enqueue_queue_def offered_def vtdtr_construct_entry_def
      split: if_splits sum.splits)

lemma vtdtr_enqueue_loop_offered:
  "vtdtr_enqueue_loop mem qs e = Inr qs' \<Longrightarrow>
     list_all2 (\<lambda>q q'. vtdtr_enqueue_queue mem q e = Inr q' \<and> offered q e q') qs qs'"
  by (induction qs arbitrary: qs') (auto split: sum.splits dest: vtdtr_enqueue_queue_offered)

lemma vtdtr_subscribed_returns:
  "mem e = Some ev \<Longrightarrow> ev_type ev < 64 \<or> MAX_BITSHIFT < ev_type ev \<Longrightarrow>
     \<exists>r. vtdtr_subscribed mem q e = Inr r"
  by (auto simp: vtdtr_subscribed_def sizeof_size_t_def BITS_def word_less_nat_alt)

lemma vtdtr_enqueue_queue_returns:
  assumes "mem e = Some ev" and "ev_type ev < 64 \<or> MAX_BITSHIFT < ev_type ev"
  shows "\<exists>q'. vtdtr_enqueue_queue mem q e = Inr q'"
proof -
  from assms vtdtr_subscribed_returns [of mem e ev q] obtain r where
    "vtdtr_subscribed mem q e = Inr r" by blast
  then show ?thesis
    by (simp add: vtdtr_enqueue_queue_def)
qed

lemma vtdtr_enqueue_loop_returns:
  assumes "mem e = Some ev" and "ev_type ev < 64 \<or> MAX_BITSHIFT < ev_type ev"
  shows "\<exists>qs'. vtdtr_enqueue_loop mem qs e = Inr qs'"
proof (induction qs)
  case Nil
  then show ?case by simp
next
  case (Cons q qs)
  from assms vtdtr_enqueue_queue_returns [of mem e ev q] obtain q' where
    "vtdtr_enqueue_queue mem q e = Inr q'" by blast
  with Cons show ?case by auto
qed

subsection \<open>Invariants of every run\<close>

lemma run_invariant:
  assumes step: "\<And>s c s'. P s \<Longrightarrow> exec_call s c = Inr s' \<Longrightarrow> P s'"
  shows "P s \<Longrightarrow> run s cs = Inr s' \<Longrightarrow> P s'"
proof (induction cs arbitrary: s)
  case Nil
  then show ?case by simp
next
  case (Cons c cs)
  from Cons.prems(2) obtain s1 where c: "exec_call s c = Inr s1" and r: "run s1 cs = Inr s'"
    by (auto split: sum.splits)
  from step [OF Cons.prems(1) c] have "P s1" .
  from Cons.IH [OF this r] show ?case .
qed

lemma length_inv_open: "length_inv s \<Longrightarrow> length_inv (snd (vtdtr_open s td))"
proof -
  assume inv: "length_inv s"
  let ?q = "\<lparr>proc = td_proc td, head = [], max_size = 0, num_entries = 0,
             event_flags = 0, drops = 0\<rparr>"
  have q: "queue_ok ?q" "max_size ?q = 0"
    by (simp_all add: queue_ok_def)
  have sub: "set (RB_INSERT (vtdtr_queue_tree s) ?q) \<subseteq> insert ?q (set (vtdtr_queue_tree s))"
    by (rule set_RB_INSERT)
  have "length_inv (s\<lparr>vtdtr_queue_tree := RB_INSERT (vtdtr_queue_tree s) ?q\<rparr>)"
    unfolding length_inv_def using inv q sub
    by (auto simp: length_inv_def)
  with inv show ?thesis
    by (simp add: vtdtr_open_def Let_def split: option.splits)
qed

lemma length_inv_close:
  assumes "length_inv s" and "vtdtr_close s td = Inr (rc, s')"
  shows "length_inv s'"
proof (cases "RB_FIND (vtdtr_queue_tree s) (tmp_queue (td_proc td))")
  case None
  with assms show ?thesis by (simp add: vtdtr_close_def)
next
  case (Some q)
  with assms(2) obtain mem' where
    s': "s' = s\<lparr>vtdtr_queue_tree := RB_REMOVE (vtdtr_queue_tree s) q, m_temp := mem'\<rparr>"
    by (auto simp: vtdtr_close_def Let_def split: sum.splits)
  have "set (RB_REMOVE (vtdtr_queue_tree s) q) \<subseteq> set (vtdtr_queue_tree s)"
    by (rule set_RB_REMOVE)
  with assms(1) show ?thesis
    unfolding s' length_inv_def by auto
qed

lemma length_inv_ioctl: "length_inv s \<Longrightarrow> length_inv (snd (vtdtr_ioctl s cmd conf td))"
proof (cases cmd)
  case (OtherCmd c)
  assume "length_inv s"
  with OtherCmd show ?thesis by (simp add: vtdtr_ioctl_def)
next
  case VTDTRIOC_CONF
  assume inv: "length_inv s"
  show ?thesis
  proof (cases "first s = 0")
    case True
    with inv VTDTRIOC_CONF show ?thesis by (simp add: vtdtr_ioctl_def)
  next
    case False
    note gate = this
    show ?thesis
    proof (cases "RB_FIND (vtdtr_queue_tree s) (tmp_queue (td_proc td))")
      case None
      with inv gate VTDTRIOC_CONF show ?thesis
        by (simp add: vtdtr_ioctl_def length_inv_def)
    next
      case (Some q)
      then have qin: "q \<in> set (vtdtr_queue_tree s)"
        by (simp add: RB_FIND_Some)
      with inv gate have "queue_ok q" "max_size q = 0"
        by (auto simp: length_inv_def)
      then have z: "num_entries q = 0" "head q = []"
        by (auto simp: queue_ok_def)
      have ok: "queue_ok (q\<lparr>max_size := m, event_flags := f\<rparr>)" for m f
        using z by (simp add: queue_ok_def)
      have "\<forall>x \<in> set (store_queue (vtdtr_queue_tree s) (q\<lparr>max_size := m, event_flags := f\<rparr>)).
              queue_ok x" for m f
      proof
        fix x
        assume "x \<in> set (store_queue (vtdtr_queue_tree s) (q\<lparr>max_size := m, event_flags := f\<rparr>))"
        then have "x = q\<lparr>max_size := m, event_flags := f\<rparr> \<or> x \<in> set (vtdtr_queue_tree s)"
          using set_store_queue by fastforce
        then show "queue_ok x"
          using ok inv by (auto simp: length_inv_def)
      qed
      with Some gate VTDTRIOC_CONF show ?thesis
        by (simp add: vtdtr_ioctl_def length_inv_def Let_def)
    qed
  qed
qed

lemma length_inv_enqueue:
  assumes "length_inv s" and "vtdtr_enqueue s e = Inr s'"
  shows "length_inv s'"
proof -
  from assms(2) obtain qs' where
    loop: "vtdtr_enqueue_loop (m_temp s) (vtdtr_queue_tree s) e = Inr qs'" and
    s': "s' = s\<lparr>vtdtr_queue_tree := qs'\<rparr>"
    by (auto simp: vtdtr_enqueue_def split: sum.splits)
  have "queue_ok q' \<and> (first s \<noteq> 0 \<longrightarrow> max_size q' = 0)" if "q' \<in> set qs'" for q'
  proof -
    from vtdtr_enqueue_loop_member [OF loop that] obtain q where
      q: "q \<in> set (vtdtr_queue_tree s)" "vtdtr_enqueue_queue (m_temp s) q e = Inr q'"
      by blast
    with assms(1) have "queue_ok q" "first s \<noteq> 0 \<longrightarrow> max_size q = 0"
      by (auto simp: length_inv_def)
    with q(2) show ?thesis
      by (auto dest: vtdtr_enqueue_queue_ok vtdtr_enqueue_queue_max_size)
  qed
  then show ?thesis
    unfolding s' length_inv_def by simp
qed

lemma length_inv_exec_call:
  "length_inv s \<Longrightarrow> exec_call s c = Inr s' \<Longrightarrow> length_inv s'"
proof (cases c)
  case (Open td)
  assume "length_inv s" "exec_call s c = Inr s'"
  with Open show ?thesis using length_inv_open [of s td] by auto
next
  case (Close td)
  assume "length_inv s" "exec_call s c = Inr s'"
  with Close show ?thesis
    by (auto split: sum.splits dest: length_inv_close)
next
  case (Ioctl cmd conf td)
  assume "length_inv s" "exec_call s c = Inr s'"
  with Ioctl show ?thesis using length_inv_ioctl [of s cmd conf td] by auto
next
  case (Read u)
  assume "length_inv s" "exec_call s c = Inr s'"
  with Read show ?thesis by (auto simp: vtdtr_read_def)
next
  case (Enqueue e)
  assume "length_inv s" "exec_call s c = Inr s'"
  with Enqueue show ?thesis by (auto dest: length_inv_enqueue)
next
  case (EvAlloc a ev)
  assume "length_inv s" "exec_call s c = Inr s'"
  with EvAlloc show ?thesis by (auto simp: length_inv_def split: if_splits)
next
  case (EvFree a)
  assume "length_inv s" "exec_call s c = Inr s'"
  with EvFree show ?thesis by (auto simp: length_inv_def split: if_splits)
qed

lemma length_inv_init: "length_inv vtdtr_init"
  by (simp add: length_inv_def vtdtr_init_def)

lemma length_inv_run: "run vtdtr_init cs = Inr s \<Longrightarrow> length_inv s"
  using run_invariant [of length_inv vtdtr_init cs s] length_inv_exec_call length_inv_init
  by blast

lemma length_inv_run_from: "length_inv s \<Longrightarrow> run s cs = Inr s' \<Longrightarrow> length_inv s'"
  using run_invariant [of length_inv s cs s'] length_inv_exec_call
  by blast

text \<open>Once \<open>first\<close> is cleared nothing sets it again.\<close>

lemma gate_closed_exec_call: "first s = 0 \<Longrightarrow> exec_call s c = Inr s' \<Longrightarrow> first s' = 0"
proof (cases c)
  case (Open td)
  assume "first s = 0" "exec_call s c = Inr s'"
  with Open show ?thesis
    by (auto simp: vtdtr_open_def Let_def split: if_splits option.splits)
next
  case (Close td)
  assume "first s = 0" "exec_call s c = Inr s'"
  with Close show ?thesis
    by (auto simp: vtdtr_close_def Let_def split: sum.splits option.splits)
next
  case (Ioctl cmd conf td)
  assume "first s = 0" "exec_call s c = Inr s'"
  with Ioctl show ?thesis
    by (auto simp: vtdtr_ioctl_def split: ioctl_cmd.splits)
next
  case (Read u)
  assume "first s = 0" "exec_call s c = Inr s'"
  with Read show ?thesis by (auto simp: vtdtr_read_def)
next
  case (Enqueue e)
  assume "first s = 0" "exec_call s c = Inr s'"
  with Enqueue show ?thesis by (auto simp: vtdtr_enqueue_def split: sum.splits)
next
  case (EvAlloc a ev)
  assume "first s = 0" "exec_call s c = Inr s'"
  with EvAlloc show ?thesis by (auto split: if_splits)
next
  case (EvFree a)
  assume "first s = 0" "exec_call s c = Inr s'"
  with EvFree show ?thesis by (auto split: if_splits)
qed

lemma gate_closed_run: "first s = 0 \<Longrightarrow> run s cs = Inr s' \<Longrightarrow> first s' = 0"
  using run_invariant [of "\<lambda>s. first s = 0" s cs s'] gate_closed_exec_call
  by blast


text \<open>The pids of the tree stay pairwise different.\<close>

lemma pid_inv_exec_call: "pid_inv s \<Longrightarrow> exec_call s c = Inr s' \<Longrightarrow> pid_inv s'"
proof (cases c)
  case (Open td)
  assume inv: "pid_inv s" and ex: "exec_call s c = Inr s'"
  show ?thesis
  proof (cases "RB_FIND (vtdtr_queue_tree s) (tmp_queue (td_proc td))")
    case None
    then have "td_proc td \<notin> proc ` set (vtdtr_queue_tree s)"
      by (simp add: RB_FIND_None tmp_queue_def)
    then have "distinct (map proc (RB_INSERT (vtdtr_queue_tree s) (queue_opened (td_proc td))))"
      using inv by (simp add: distinct_RB_INSERT pid_inv_def queue_opened_def)
    with inv ex Open None show ?thesis
      by (auto simp: vtdtr_open_def Let_def pid_inv_def queue_opened_def split: if_splits)
  next
    case (Some q)
    with inv ex Open show ?thesis
      by (auto simp: vtdtr_open_def Let_def split: if_splits)
  qed
next
  case (Close td)
  assume "pid_inv s" "exec_call s c = Inr s'"
  with Close show ?thesis
    by (auto simp: vtdtr_close_def Let_def pid_inv_def distinct_RB_REMOVE
        split: sum.splits option.splits)
next
  case (Ioctl cmd conf td)
  assume "pid_inv s" "exec_call s c = Inr s'"
  with Ioctl show ?thesis
    by (auto simp: vtdtr_ioctl_def Let_def pid_inv_def map_proc_store_queue
        split: ioctl_cmd.splits option.splits if_splits)
next
  case (Read u)
  assume "pid_inv s" "exec_call s c = Inr s'"
  with Read show ?thesis by (auto simp: vtdtr_read_def)
next
  case (Enqueue e)
  assume "pid_inv s" "exec_call s c = Inr s'"
  with Enqueue show ?thesis
    by (auto simp: vtdtr_enqueue_def pid_inv_def split: sum.splits
        dest: vtdtr_enqueue_loop_proc)
next
  case (EvAlloc a ev)
  assume "pid_inv s" "exec_call s c = Inr s'"
  with EvAlloc show ?thesis by (auto simp: pid_inv_def split: if_splits)
next
  case (EvFree a)
  assume "pid_inv s" "exec_call s c = Inr s'"
  with EvFree show ?thesis by (auto simp: pid_inv_def split: if_splits)
qed

lemma pid_inv_run: "run vtdtr_init cs = Inr s \<Longrightarrow> pid_inv s"
  using run_invariant [of pid_inv vtdtr_init cs s] pid_inv_exec_call
  by (auto simp: pid_inv_def vtdtr_init_def)

lemma vtdtr_close_no_queue:
  assumes "pid_inv s" and "vtdtr_close s td = Inr (rc, s')"
  shows "RB_FIND (vtdtr_queue_tree s') (tmp_queue (td_proc td)) = None"
proof (cases "RB_FIND (vtdtr_queue_tree s) (tmp_queue (td_proc td))")
  case None
  with assms(2) show ?thesis by (simp add: vtdtr_close_def)
next
  case (Some q)
  then have "proc (tmp_queue (td_proc td)) = proc q"
    by (simp add: RB_FIND_Some)
  with assms(1) have "RB_FIND (RB_REMOVE (vtdtr_queue_tree s) q) (tmp_queue (td_proc td)) = None"
    by (simp add: RB_FIND_RB_REMOVE pid_inv_def)
  with assms(2) Some show ?thesis
    by (auto simp: vtdtr_close_def Let_def split: sum.splits)
qed

text \<open>At most one queue is ever configured.\<close>

lemma configured_RB_INSERT:
  "max_size q = 0 \<Longrightarrow> configured (RB_INSERT qs q) = configured qs"
  by (induction qs) (auto simp: configured_def)

lemma configured_RB_REMOVE:
  "length (configured (RB_REMOVE qs q)) \<le> length (configured qs)"
  by (induction qs) (auto simp: configured_def)

lemma configured_store_queue:
  "configured qs = [] \<Longrightarrow> length (configured (store_queue qs q')) \<le> 1"
  by (induction qs) (auto simp: configured_def split: if_splits)

lemma configured_enqueue_loop:
  "vtdtr_enqueue_loop mem qs e = Inr qs' \<Longrightarrow>
     length (configured qs') = length (configured qs)"
  by (induction qs arbitrary: qs')
     (auto simp: configured_def split: sum.splits dest: vtdtr_enqueue_queue_max_size)



lemma conf_inv_open: "conf_inv s \<Longrightarrow> conf_inv (snd (vtdtr_open s td))"
proof -
  assume inv: "conf_inv s"
  have "configured (RB_INSERT (vtdtr_queue_tree s) (queue_opened (td_proc td)))
      = configured (vtdtr_queue_tree s)"
    by (rule configured_RB_INSERT) (simp add: queue_opened_def)
  with inv have "conf_inv (s\<lparr>vtdtr_queue_tree :=
      RB_INSERT (vtdtr_queue_tree s) (queue_opened (td_proc td))\<rparr>)"
    by (simp add: conf_inv_def)
  with inv show ?thesis
    by (simp add: vtdtr_open_def Let_def queue_opened_def split: option.splits)
qed

lemma conf_inv_close:
  assumes "conf_inv s" and "vtdtr_close s td = Inr (rc, s')"
  shows "conf_inv s'"
proof (cases "RB_FIND (vtdtr_queue_tree s) (tmp_queue (td_proc td))")
  case None
  with assms show ?thesis by (simp add: vtdtr_close_def)
next
  case (Some q)
  with assms(2) obtain mem' where
    s': "s' = s\<lparr>vtdtr_queue_tree := RB_REMOVE (vtdtr_queue_tree s) q, m_temp := mem'\<rparr>"
    by (auto simp: vtdtr_close_def Let_def split: sum.splits)
  from configured_RB_REMOVE [of "vtdtr_queue_tree s" q] assms(1)
  show ?thesis
    unfolding s' conf_inv_def by auto
qed

lemma conf_inv_ioctl: "conf_inv s \<Longrightarrow> conf_inv (snd (vtdtr_ioctl s cmd conf td))"
proof (cases cmd)
  case (OtherCmd c)
  assume "conf_inv s"
  with OtherCmd show ?thesis by (simp add: vtdtr_ioctl_def)
next
  case VTDTRIOC_CONF
  assume inv: "conf_inv s"
  show ?thesis
  proof (cases "first s = 0")
    case True
    with inv VTDTRIOC_CONF show ?thesis by (simp add: vtdtr_ioctl_def)
  next
    case False
    with inv have e: "configured (vtdtr_queue_tree s) = []"
      by (simp add: conf_inv_def)
    show ?thesis
    proof (cases "RB_FIND (vtdtr_queue_tree s) (tmp_queue (td_proc td))")
      case None
      with inv False VTDTRIOC_CONF show ?thesis
        by (simp add: vtdtr_ioctl_def conf_inv_def)
    next
      case (Some q)
      have "length (configured (store_queue (vtdtr_queue_tree s) q')) \<le> 1" for q'
        using e by (rule configured_store_queue)
      with Some False VTDTRIOC_CONF show ?thesis
        by (simp add: vtdtr_ioctl_def conf_inv_def Let_def)
    qed
  qed
qed

lemma conf_inv_enqueue:
  assumes "conf_inv s" and "vtdtr_enqueue s e = Inr s'"
  shows "conf_inv s'"
proof -
  from assms(2) obtain qs' where
    loop: "vtdtr_enqueue_loop (m_temp s) (vtdtr_queue_tree s) e = Inr qs'" and
    s': "s' = s\<lparr>vtdtr_queue_tree := qs'\<rparr>"
    by (auto simp: vtdtr_enqueue_def split: sum.splits)
  from configured_enqueue_loop [OF loop] assms(1)
  show ?thesis
    unfolding s' conf_inv_def by auto
qed

lemma conf_inv_exec_call: "conf_inv s \<Longrightarrow> exec_call s c = Inr s' \<Longrightarrow> conf_inv s'"
proof (cases c)
  case (Open td)
  assume "conf_inv s" "exec_call s c = Inr s'"
  with Open show ?thesis using conf_inv_open [of s td] by auto
next
  case (Close td)
  assume "conf_inv s" "exec_call s c = Inr s'"
  with Close show ?thesis
    by (auto split: sum.splits dest: conf_inv_close)
next
  case (Ioctl cmd conf td)
  assume "conf_inv s" "exec_call s c = Inr s'"
  with Ioctl show ?thesis using conf_inv_ioctl [of s cmd conf td] by auto
next
  case (Read u)
  assume "conf_inv s" "exec_call s c = Inr s'"
  with Read show ?thesis by (auto simp: vtdtr_read_def)
next
  case (Enqueue e)
  assume "conf_inv s" "exec_call s c = Inr s'"
  with Enqueue show ?thesis by (auto dest: conf_inv_enqueue)
next
  case (EvAlloc a ev)
  assume "conf_inv s" "exec_call s c = Inr s'"
  with EvAlloc show ?thesis by (auto simp: conf_inv_def split: if_splits)
next
  case (EvFree a)
  assume "conf_inv s" "exec_call s c = Inr s'"
  with EvFree show ?thesis by (auto simp: conf_inv_def split: if_splits)
qed

lemma at_most_one_configured:
  "run vtdtr_init cs = Inr s \<Longrightarrow> length (configured (vtdtr_queue_tree s)) \<le> 1"
proof -
  assume r: "run vtdtr_init cs = Inr s"
  have "conf_inv vtdtr_init"
    by (simp add: conf_inv_def vtdtr_init_def configured_def)
  with r have "conf_inv s"
    using run_invariant [of conf_inv vtdtr_init cs s] conf_inv_exec_call by blast
  then show ?thesis by (simp add: conf_inv_def)
qed


subsection \<open>The contract of the drain\<close>

lemma drain_contract_nothing:
  "fst (drain_contract mem q n) = [] \<and> snd (drain_contract mem q n) = q \<longleftrightarrow>
     head q = [] \<or> n = 0"
proof (cases "head q = [] \<or> n = 0")
  case True
  then show ?thesis
    by (auto simp: drain_contract_def Let_def)
next
  case False
  then have "0 < min n (length (head q))" by (cases "head q") auto
  then have "length (drop (min n (length (head q))) (head q)) < length (head q)"
    by simp
  then have "drop (min n (length (head q))) (head q) \<noteq> head q"
    by (metis less_irrefl)
  then have "head (snd (drain_contract mem q n)) \<noteq> head q"
    by (simp add: drain_contract_def Let_def)
  then have "snd (drain_contract mem q n) \<noteq> q" by auto
  with False show ?thesis by simp
qed

subsection \<open>Evaluation of the example run\<close>

lemmas example_defs = consumer_td_def other_td_def event_a_def event_b_def conf_small_def
  calls_fill_def queue_full_def state_full_def queue_opened_def queue_configured_def
  calls_two_def state_two_def event_wide_def conf_zero_def state_shared_def

lemmas eval_defs = vtdtr_init_def vtdtr_open_def priv_check_def tmp_queue_def qtreecmp_def
  vtdtr_ioctl_def vtdtr_enqueue_def vtdtr_enqueue_queue_def vtdtr_subscribed_def
  vtdtr_construct_entry_def MAX_BITSHIFT_val sizeof_size_t_def BITS_def Let_def
  vtdtr_close_def vtdtr_read_def VTDTR_DEFAULT_SIZE_def VTDTR_ALL_EVENTS_def
  VTDTR_BITMASK_val EBUSY_def ENOENT_def ESRCH_def EPERM_def

lemma run_calls_fill: "run vtdtr_init calls_fill = Inr state_full"
  by (simp add: example_defs eval_defs)

lemma run_calls_two: "run vtdtr_init calls_two = Inr state_two"
  by (simp add: example_defs eval_defs)

section \<open>The claims\<close>

text \<open>
  C1, as the code has it. \<open>vtdtr_open\<close> by a thread that holds the privilege and owns no
  queue returns 0 and registers a queue that is zeroed: capacity 0, subscription mask 0,
  no entries, no drops. An event dispatched next is not admitted to it: the queue counts
  a drop. The default capacity and the all-events mask are installed by the
  \<open>VTDTRIOC_CONF\<close> call that passes the gate with no overrides; the queue so configured
  admits an event whose type is below 32.
\<close>

theorem open_registers_unconfigured_queue:
  "priv_check td = 0 \<and> RB_FIND (vtdtr_queue_tree s) (tmp_queue (td_proc td)) = None \<longrightarrow>
     fst (vtdtr_open s td) = 0 \<and>
     RB_FIND (vtdtr_queue_tree (snd (vtdtr_open s td))) (tmp_queue (td_proc td))
       = Some (queue_opened (td_proc td)) \<and>
     vtdtr_enqueue_queue mem (queue_opened (td_proc td)) e
       = Inr ((queue_opened (td_proc td))\<lparr>drops := 1\<rparr>) \<and>
     (first s \<noteq> 0 \<longrightarrow>
        fst (vtdtr_ioctl (snd (vtdtr_open s td)) VTDTRIOC_CONF None td) = 0 \<and>
        RB_FIND (vtdtr_queue_tree (snd (vtdtr_ioctl (snd (vtdtr_open s td)) VTDTRIOC_CONF None td)))
            (tmp_queue (td_proc td))
          = Some (queue_configured (td_proc td))) \<and>
     (mem e = Some ev \<and> ev_type ev < 32 \<longrightarrow>
        vtdtr_enqueue_queue mem (queue_configured (td_proc td)) e
          = Inr ((queue_configured (td_proc td))\<lparr>head := [\<lparr>event = e\<rparr>], num_entries := 1\<rparr>))"
proof (intro impI)
  assume a: "priv_check td = 0 \<and> RB_FIND (vtdtr_queue_tree s) (tmp_queue (td_proc td)) = None"
  let ?p = "td_proc td"
  let ?s1 = "s\<lparr>vtdtr_queue_tree := RB_INSERT (vtdtr_queue_tree s) (queue_opened ?p)\<rparr>"
  from a have op: "vtdtr_open s td = (0, ?s1)"
    by (simp add: vtdtr_open_def Let_def queue_opened_def)
  from a have f1: "RB_FIND (vtdtr_queue_tree ?s1) (tmp_queue ?p) = Some (queue_opened ?p)"
    by (simp add: RB_FIND_RB_INSERT queue_opened_def tmp_queue_def)
  have d: "vtdtr_enqueue_queue mem (queue_opened ?p) e = Inr ((queue_opened ?p)\<lparr>drops := 1\<rparr>)"
    by (simp add: vtdtr_enqueue_queue_def queue_opened_def)
  have c: "fst (vtdtr_ioctl ?s1 VTDTRIOC_CONF None td) = 0 \<and>
        RB_FIND (vtdtr_queue_tree (snd (vtdtr_ioctl ?s1 VTDTRIOC_CONF None td))) (tmp_queue ?p)
          = Some (queue_configured ?p)" if "first s \<noteq> 0"
  proof -
    have "proc (queue_configured ?p) = proc (tmp_queue ?p)"
      by (simp add: queue_configured_def queue_opened_def tmp_queue_def)
    with f1 have "RB_FIND (store_queue (vtdtr_queue_tree ?s1) (queue_configured ?p)) (tmp_queue ?p)
        = Some (queue_configured ?p)"
      by (rule RB_FIND_store_queue)
    with that f1 show ?thesis
      by (simp add: vtdtr_ioctl_def Let_def queue_configured_def)
  qed
  have ad: "vtdtr_enqueue_queue mem (queue_configured ?p) e
          = Inr ((queue_configured ?p)\<lparr>head := [\<lparr>event = e\<rparr>], num_entries := 1\<rparr>)"
    if "mem e = Some ev \<and> ev_type ev < 32"
  proof -
    have "event_flags (queue_configured ?p) = VTDTR_ALL_EVENTS"
      by (simp add: queue_configured_def)
    with that obtain r where
      "vtdtr_subscribed mem (queue_configured ?p) e = Inr r" "r \<noteq> 0"
      using vtdtr_subscribed_all_events [of mem e ev "queue_configured ?p"] by blast
    then show ?thesis
      by (simp add: vtdtr_enqueue_queue_def queue_configured_def queue_opened_def
          VTDTR_DEFAULT_SIZE_def VTDTR_BITMASK_val vtdtr_construct_entry_def)
  qed
  from op f1 d c ad show "fst (vtdtr_open s td) = 0 \<and>
     RB_FIND (vtdtr_queue_tree (snd (vtdtr_open s td))) (tmp_queue (td_proc td))
       = Some (queue_opened (td_proc td)) \<and>
     vtdtr_enqueue_queue mem (queue_opened (td_proc td)) e
       = Inr ((queue_opened (td_proc td))\<lparr>drops := 1\<rparr>) \<and>
     (first s \<noteq> 0 \<longrightarrow>
        fst (vtdtr_ioctl (snd (vtdtr_open s td)) VTDTRIOC_CONF None td) = 0 \<and>
        RB_FIND (vtdtr_queue_tree (snd (vtdtr_ioctl (snd (vtdtr_open s td)) VTDTRIOC_CONF None td)))
            (tmp_queue (td_proc td))
          = Some (queue_configured (td_proc td))) \<and>
     (mem e = Some ev \<and> ev_type ev < 32 \<longrightarrow>
        vtdtr_enqueue_queue mem (queue_configured (td_proc td)) e
          = Inr ((queue_configured (td_proc td))\<lparr>head := [\<lparr>event = e\<rparr>], num_entries := 1\<rparr>))"
    by simp
qed

theorem open_registers_unconfigured_queue_witness:
  "priv_check consumer_td = 0 \<and>
   RB_FIND (vtdtr_queue_tree vtdtr_init) (tmp_queue (td_proc consumer_td)) = None \<and>
   first vtdtr_init = 1 \<and>
   [0 \<mapsto> event_a] 0 = Some event_a \<and> ev_type event_a < 32 \<and>
   fst (vtdtr_open vtdtr_init consumer_td) = 0 \<and>
   RB_FIND (vtdtr_queue_tree (snd (vtdtr_open vtdtr_init consumer_td))) (tmp_queue 1)
     = Some (queue_opened 1) \<and>
   vtdtr_enqueue_queue [0 \<mapsto> event_a] (queue_opened 1) 0 = Inr ((queue_opened 1)\<lparr>drops := 1\<rparr>) \<and>
   fst (vtdtr_ioctl (snd (vtdtr_open vtdtr_init consumer_td)) VTDTRIOC_CONF None consumer_td) = 0 \<and>
   RB_FIND (vtdtr_queue_tree
       (snd (vtdtr_ioctl (snd (vtdtr_open vtdtr_init consumer_td)) VTDTRIOC_CONF None consumer_td)))
       (tmp_queue 1)
     = Some (queue_configured 1) \<and>
   vtdtr_enqueue_queue [0 \<mapsto> event_a] (queue_configured 1) 0
     = Inr ((queue_configured 1)\<lparr>head := [\<lparr>event = 0\<rparr>], num_entries := 1\<rparr>)"
proof -
  have p: "priv_check consumer_td = 0" "td_proc consumer_td = 1"
    by (simp_all add: consumer_td_def priv_check_def)
  have n: "RB_FIND (vtdtr_queue_tree vtdtr_init) (tmp_queue (td_proc consumer_td)) = None"
    by (simp add: vtdtr_init_def)
  have g: "first vtdtr_init = 1"
    by (simp add: vtdtr_init_def)
  have m: "[0 \<mapsto> event_a] (0::nat) = Some event_a" "ev_type event_a < 32"
    by (simp_all add: event_a_def)
  from open_registers_unconfigured_queue
    [of consumer_td vtdtr_init "[0 \<mapsto> event_a]" 0 event_a] p n g m
  show ?thesis by simp
qed

theorem open_installs_defaults_counterexample:
  "priv_check consumer_td = 0 \<and>
   RB_FIND (vtdtr_queue_tree vtdtr_init) (tmp_queue (td_proc consumer_td)) = None \<and>
   vtdtr_open vtdtr_init consumer_td = (0, vtdtr_init\<lparr>vtdtr_queue_tree := [queue_opened 1]\<rparr>) \<and>
   max_size (queue_opened 1) \<noteq> VTDTR_DEFAULT_SIZE \<and>
   event_flags (queue_opened 1) \<noteq> VTDTR_ALL_EVENTS \<and>
   run vtdtr_init [Open consumer_td, EvAlloc 0 event_a, Enqueue 0]
     = Inr \<lparr>vtdtr_queue_tree = [(queue_opened 1)\<lparr>drops := 1\<rparr>], first = 1,
            m_temp = [0 \<mapsto> event_a]\<rparr> \<and>
   head ((queue_opened 1)\<lparr>drops := 1\<rparr>) = []"
  by (simp add: example_defs eval_defs)

text \<open>
  C2, as the code has it. An event whose type is below 64 and whose bit is unset in the
  subscription mask of a queue is never inserted into that queue. While the queue has
  room (\<open>num_entries < max_size\<close>) the queue is left exactly as it was, so no drop is
  counted; when the queue is at capacity the capacity test comes first and the event
  counts as a drop like any other.
\<close>

theorem unsubscribed_event_never_inserted:
  "mem e = Some ev \<and> ev_type ev < 64 \<and> \<not> bit (event_flags q) (unat (ev_type ev)) \<longrightarrow>
     vtdtr_enqueue_queue mem q e
       = Inr (if num_entries q < max_size q then q else q\<lparr>drops := drops q + 1\<rparr>)"
proof
  assume a: "mem e = Some ev \<and> ev_type ev < 64 \<and> \<not> bit (event_flags q) (unat (ev_type ev))"
  then have "vtdtr_subscribed mem q e = Inr 0"
    by (simp add: vtdtr_subscribed_unset)
  then show "vtdtr_enqueue_queue mem q e
       = Inr (if num_entries q < max_size q then q else q\<lparr>drops := drops q + 1\<rparr>)"
    by (auto simp: vtdtr_enqueue_queue_def)
qed

theorem unsubscribed_event_never_inserted_witness:
  "[0 \<mapsto> event_a, 1 \<mapsto> event_b] 1 = Some event_b \<and> ev_type event_b < 64 \<and>
   \<not> bit (event_flags queue_full) (unat (ev_type event_b)) \<and>
   vtdtr_enqueue_queue [0 \<mapsto> event_a, 1 \<mapsto> event_b] queue_full 1
     = Inr (queue_full\<lparr>drops := 1\<rparr>) \<and>
   \<not> bit (event_flags (queue_full\<lparr>max_size := 2\<rparr>)) (unat (ev_type event_b)) \<and>
   vtdtr_enqueue_queue [0 \<mapsto> event_a, 1 \<mapsto> event_b] (queue_full\<lparr>max_size := 2\<rparr>) 1
     = Inr (queue_full\<lparr>max_size := 2\<rparr>)"
proof -
  have m: "[0 \<mapsto> event_a, 1 \<mapsto> event_b] (1::nat) = Some event_b" "ev_type event_b < 64"
    by (simp_all add: event_b_def)
  have b: "\<not> bit (event_flags queue_full) (unat (ev_type event_b))"
    "\<not> bit (event_flags (queue_full\<lparr>max_size := 2\<rparr>)) (unat (ev_type event_b))"
    by (simp_all add: queue_full_def event_b_def)
  from unsubscribed_event_never_inserted
    [of "[0 \<mapsto> event_a, 1 \<mapsto> event_b]" 1 event_b queue_full] m b
  have A: "vtdtr_enqueue_queue [0 \<mapsto> event_a, 1 \<mapsto> event_b] queue_full 1
     = Inr (queue_full\<lparr>drops := 1\<rparr>)"
    by (simp add: queue_full_def)
  from unsubscribed_event_never_inserted
    [of "[0 \<mapsto> event_a, 1 \<mapsto> event_b]" 1 event_b "queue_full\<lparr>max_size := 2\<rparr>"] m b
  have B: "vtdtr_enqueue_queue [0 \<mapsto> event_a, 1 \<mapsto> event_b] (queue_full\<lparr>max_size := 2\<rparr>) 1
     = Inr (queue_full\<lparr>max_size := 2\<rparr>)"
    by (simp add: queue_full_def)
  from m b A B show ?thesis by simp
qed

theorem unsubscribed_event_counts_drop_counterexample:
  "run vtdtr_init (calls_fill @ [EvAlloc 1 event_b])
     = Inr (state_full\<lparr>m_temp := [0 \<mapsto> event_a, 1 \<mapsto> event_b]\<rparr>) \<and>
   vtdtr_queue_tree state_full = [queue_full] \<and>
   num_entries queue_full = max_size queue_full \<and>
   \<not> bit (event_flags queue_full) (unat (ev_type event_b)) \<and>
   drops queue_full = 0 \<and>
   vtdtr_enqueue (state_full\<lparr>m_temp := [0 \<mapsto> event_a, 1 \<mapsto> event_b]\<rparr>) 1
     = Inr \<lparr>vtdtr_queue_tree = [queue_full\<lparr>drops := 1\<rparr>], first = 0,
            m_temp = [0 \<mapsto> event_a, 1 \<mapsto> event_b]\<rparr>"
  by (simp add: example_defs eval_defs)

text \<open>
  C3. The guard of \<open>vtdtr_subscribed\<close> compares the type with \<open>MAX_BITSHIFT\<close>, which is
  \<open>1 << 63\<close> and not 63. An event of type 64, dispatched while a queue has room, passes
  the guard and reaches \<open>(size_t)1 << 64\<close>: the run below ends in that shift.
\<close>

theorem type_64_reaches_the_shift:
  "run vtdtr_init (calls_two @ [EvAlloc 1 event_wide])
     = Inr (state_two\<lparr>m_temp := [0 \<mapsto> event_a, 1 \<mapsto> event_wide]\<rparr>) \<and>
   \<not> ev_type event_wide < 64 \<and>
   \<not> MAX_BITSHIFT < ev_type event_wide \<and>
   vtdtr_subscribed [0 \<mapsto> event_a, 1 \<mapsto> event_wide] (hd (vtdtr_queue_tree state_two)) 1
     = Inl ShiftOutOfRange \<and>
   vtdtr_enqueue (state_two\<lparr>m_temp := [0 \<mapsto> event_a, 1 \<mapsto> event_wide]\<rparr>) 1
     = Inl ShiftOutOfRange \<and>
   run vtdtr_init (calls_two @ [EvAlloc 1 event_wide, Enqueue 1]) = Inl ShiftOutOfRange"
  by (simp add: example_defs eval_defs)

text \<open>
  C4, as the code has it. The \<open>VTDTRIOC_CONF\<close> call that passes the gate, by a process
  that owns a queue, returns 0 and stores in that queue the capacity and the mask of the
  argument where they are not zero; for a field that is zero, or with no argument at
  all, it stores the default (\<open>VTDTR_DEFAULT_SIZE\<close>, \<open>VTDTR_ALL_EVENTS\<close>), whatever the
  queue held. The other fields of the queue and the queues of other processes are as
  before.
\<close>

theorem configure_zero_fields_install_defaults:
  "first s \<noteq> 0 \<and> RB_FIND (vtdtr_queue_tree s) (tmp_queue (td_proc td)) = Some q \<longrightarrow>
     fst (vtdtr_ioctl s VTDTRIOC_CONF conf td) = 0 \<and>
     RB_FIND (vtdtr_queue_tree (snd (vtdtr_ioctl s VTDTRIOC_CONF conf td))) (tmp_queue (td_proc td))
       = Some (q\<lparr>max_size :=
                    (case conf of
                       None \<Rightarrow> VTDTR_DEFAULT_SIZE
                     | Some c \<Rightarrow>
                         if conf_max_size c = 0 then VTDTR_DEFAULT_SIZE else conf_max_size c),
                  event_flags :=
                    (case conf of
                       None \<Rightarrow> VTDTR_ALL_EVENTS
                     | Some c \<Rightarrow>
                         if conf_event_flags c = 0 then VTDTR_ALL_EVENTS
                         else conf_event_flags c)\<rparr>) \<and>
     (p \<noteq> td_proc td \<longrightarrow>
        RB_FIND (vtdtr_queue_tree (snd (vtdtr_ioctl s VTDTRIOC_CONF conf td))) (tmp_queue p)
          = RB_FIND (vtdtr_queue_tree s) (tmp_queue p))"
proof
  assume a: "first s \<noteq> 0 \<and> RB_FIND (vtdtr_queue_tree s) (tmp_queue (td_proc td)) = Some q"
  define m where "m = (case conf of
                       None \<Rightarrow> VTDTR_DEFAULT_SIZE
                     | Some c \<Rightarrow>
                         if conf_max_size c = 0 then VTDTR_DEFAULT_SIZE else conf_max_size c)"
  define f where "f = (case conf of
                       None \<Rightarrow> VTDTR_ALL_EVENTS
                     | Some c \<Rightarrow>
                         if conf_event_flags c = 0 then VTDTR_ALL_EVENTS
                         else conf_event_flags c)"
  let ?q' = "q\<lparr>max_size := m, event_flags := f\<rparr>"
  from a have r: "vtdtr_ioctl s VTDTRIOC_CONF conf td
      = (0, s\<lparr>first := 0, vtdtr_queue_tree := store_queue (vtdtr_queue_tree s) ?q'\<rparr>)"
    by (cases conf) (simp_all add: vtdtr_ioctl_def Let_def m_def f_def)
  from a have pq: "proc q = td_proc td"
    using RB_FIND_Some [of "vtdtr_queue_tree s" "tmp_queue (td_proc td)" q]
    by (simp add: tmp_queue_def)
  then have "proc ?q' = proc (tmp_queue (td_proc td))"
    by (simp add: tmp_queue_def)
  with a have own: "RB_FIND (store_queue (vtdtr_queue_tree s) ?q') (tmp_queue (td_proc td)) = Some ?q'"
    by (simp add: RB_FIND_store_queue)
  have other: "RB_FIND (store_queue (vtdtr_queue_tree s) ?q') (tmp_queue p)
      = RB_FIND (vtdtr_queue_tree s) (tmp_queue p)" if "p \<noteq> td_proc td"
    using that pq by (simp add: RB_FIND_store_queue_other tmp_queue_def)
  from r own other show "fst (vtdtr_ioctl s VTDTRIOC_CONF conf td) = 0 \<and>
     RB_FIND (vtdtr_queue_tree (snd (vtdtr_ioctl s VTDTRIOC_CONF conf td))) (tmp_queue (td_proc td))
       = Some (q\<lparr>max_size :=
                    (case conf of
                       None \<Rightarrow> VTDTR_DEFAULT_SIZE
                     | Some c \<Rightarrow>
                         if conf_max_size c = 0 then VTDTR_DEFAULT_SIZE else conf_max_size c),
                  event_flags :=
                    (case conf of
                       None \<Rightarrow> VTDTR_ALL_EVENTS
                     | Some c \<Rightarrow>
                         if conf_event_flags c = 0 then VTDTR_ALL_EVENTS
                         else conf_event_flags c)\<rparr>) \<and>
     (p \<noteq> td_proc td \<longrightarrow>
        RB_FIND (vtdtr_queue_tree (snd (vtdtr_ioctl s VTDTRIOC_CONF conf td))) (tmp_queue p)
          = RB_FIND (vtdtr_queue_tree s) (tmp_queue p))"
    by (simp add: m_def f_def)
qed

theorem configure_zero_fields_install_defaults_witness:
  "first (vtdtr_init\<lparr>vtdtr_queue_tree := [queue_opened 1, queue_opened 2]\<rparr>) \<noteq> 0 \<and>
   RB_FIND (vtdtr_queue_tree (vtdtr_init\<lparr>vtdtr_queue_tree := [queue_opened 1, queue_opened 2]\<rparr>))
       (tmp_queue (td_proc consumer_td))
     = Some (queue_opened 1) \<and>
   (2 :: int) \<noteq> td_proc consumer_td \<and>
   fst (vtdtr_ioctl (vtdtr_init\<lparr>vtdtr_queue_tree := [queue_opened 1, queue_opened 2]\<rparr>)
          VTDTRIOC_CONF (Some conf_zero) consumer_td) = 0 \<and>
   RB_FIND (vtdtr_queue_tree
       (snd (vtdtr_ioctl (vtdtr_init\<lparr>vtdtr_queue_tree := [queue_opened 1, queue_opened 2]\<rparr>)
               VTDTRIOC_CONF (Some conf_zero) consumer_td)))
       (tmp_queue 1)
     = Some (queue_configured 1) \<and>
   RB_FIND (vtdtr_queue_tree
       (snd (vtdtr_ioctl (vtdtr_init\<lparr>vtdtr_queue_tree := [queue_opened 1, queue_opened 2]\<rparr>)
               VTDTRIOC_CONF (Some conf_zero) consumer_td)))
       (tmp_queue 2)
     = Some (queue_opened 2)"
proof -
  let ?s = "vtdtr_init\<lparr>vtdtr_queue_tree := [queue_opened 1, queue_opened 2]\<rparr>"
  have g: "first ?s \<noteq> 0"
    by (simp add: vtdtr_init_def)
  have f: "RB_FIND (vtdtr_queue_tree ?s) (tmp_queue (td_proc consumer_td)) = Some (queue_opened 1)"
    by (simp add: example_defs eval_defs)
  have o: "RB_FIND (vtdtr_queue_tree ?s) (tmp_queue 2) = Some (queue_opened 2)"
    by (simp add: example_defs eval_defs)
  have p: "(2 :: int) \<noteq> td_proc consumer_td" "td_proc consumer_td = 1"
    by (simp_all add: consumer_td_def)
  have c: "(queue_opened 1)\<lparr>max_size := VTDTR_DEFAULT_SIZE, event_flags := VTDTR_ALL_EVENTS\<rparr>
      = queue_configured 1"
    by (simp add: queue_configured_def)
  from configure_zero_fields_install_defaults
    [of ?s consumer_td "queue_opened 1" "Some conf_zero" 2] g f o p c
  show ?thesis by (simp add: conf_zero_def)
qed

theorem configure_zero_keeps_current_counterexample:
  "run vtdtr_init [Open consumer_td]
     = Inr (vtdtr_init\<lparr>vtdtr_queue_tree := [queue_opened 1]\<rparr>) \<and>
   max_size (queue_opened 1) = 0 \<and> event_flags (queue_opened 1) = 0 \<and>
   conf_max_size conf_zero = 0 \<and> conf_event_flags conf_zero = 0 \<and>
   vtdtr_ioctl (vtdtr_init\<lparr>vtdtr_queue_tree := [queue_opened 1]\<rparr>) VTDTRIOC_CONF
       (Some conf_zero) consumer_td
     = (0, \<lparr>vtdtr_queue_tree =
               [(queue_opened 1)\<lparr>max_size := 18446744073709551615,
                                  event_flags := 18446744073709551615\<rparr>],
             first = 0, m_temp = Map.empty\<rparr>)"
  by (simp add: example_defs eval_defs)

text \<open>
  C5, as the code has it. \<open>vtdtr_read\<close> returns 0 and leaves the module state and the
  caller's buffer exactly as they were: nothing is removed from any queue and nothing
  is transferred. It meets the contract of the drain for a process exactly when that
  process owns no queue, its queue is empty or the buffer has no room; on an empty queue
  the result is empty and no error is reported.
\<close>

theorem read_transfers_nothing:
  "vtdtr_read s u = (0, s, u) \<and>
   (read_meets_drain_contract s p u \<longleftrightarrow>
      (case RB_FIND (vtdtr_queue_tree s) (tmp_queue p) of
         None \<Rightarrow> True
       | Some q \<Rightarrow> head q = [] \<or> uio_resid u = 0))"
proof
  show "vtdtr_read s u = (0, s, u)"
    by (simp add: vtdtr_read_def)
  show "read_meets_drain_contract s p u \<longleftrightarrow>
      (case RB_FIND (vtdtr_queue_tree s) (tmp_queue p) of
         None \<Rightarrow> True
       | Some q \<Rightarrow> head q = [] \<or> uio_resid u = 0)"
  proof (cases "RB_FIND (vtdtr_queue_tree s) (tmp_queue p)")
    case None
    then show ?thesis by (simp add: read_meets_drain_contract_def)
  next
    case (Some q)
    have "read_meets_drain_contract s p u \<longleftrightarrow>
        fst (drain_contract (m_temp s) q (uio_resid u)) = [] \<and>
        snd (drain_contract (m_temp s) q (uio_resid u)) = q"
      using Some by (auto simp: read_meets_drain_contract_def vtdtr_read_def)
    with Some show ?thesis
      by (simp add: drain_contract_nothing)
  qed
qed

theorem read_transfers_nothing_witness:
  "vtdtr_read state_full \<lparr>uio_resid = 1, uio_data = []\<rparr>
     = (0, state_full, \<lparr>uio_resid = 1, uio_data = []\<rparr>) \<and>
   RB_FIND (vtdtr_queue_tree state_full) (tmp_queue 1) = Some queue_full \<and>
   head queue_full = [\<lparr>event = 0\<rparr>] \<and>
   \<not> read_meets_drain_contract state_full 1 \<lparr>uio_resid = 1, uio_data = []\<rparr> \<and>
   read_meets_drain_contract state_two 2 \<lparr>uio_resid = 1, uio_data = []\<rparr>"
proof -
  have f: "RB_FIND (vtdtr_queue_tree state_full) (tmp_queue 1) = Some queue_full"
    by (simp add: example_defs eval_defs)
  have h: "head queue_full = [\<lparr>event = 0\<rparr>]"
    by (simp add: queue_full_def)
  have g: "RB_FIND (vtdtr_queue_tree state_two) (tmp_queue 2) = Some (queue_opened 2)"
    "head (queue_opened 2) = []"
    by (simp_all add: example_defs eval_defs)
  from read_transfers_nothing [of state_full "\<lparr>uio_resid = 1, uio_data = []\<rparr>" 1]
    read_transfers_nothing [of state_two "\<lparr>uio_resid = 1, uio_data = []\<rparr>" 2] f h g
  show ?thesis by simp
qed

theorem read_drains_head_counterexample:
  "run vtdtr_init calls_fill = Inr state_full \<and>
   RB_FIND (vtdtr_queue_tree state_full) (tmp_queue 1) = Some queue_full \<and>
   drain_contract (m_temp state_full) queue_full 1
     = ([event_a], queue_full\<lparr>head := [], num_entries := 0\<rparr>) \<and>
   vtdtr_read state_full \<lparr>uio_resid = 1, uio_data = []\<rparr>
     = (0, state_full, \<lparr>uio_resid = 1, uio_data = []\<rparr>) \<and>
   \<not> read_meets_drain_contract state_full 1 \<lparr>uio_resid = 1, uio_data = []\<rparr>"
  by (simp add: run_calls_fill)
     (simp add: read_meets_drain_contract_def drain_contract_def example_defs eval_defs)

text \<open>
  C6. In every state that a run of the module reaches from \<open>MOD_LOAD\<close>, every queue has
  \<open>num_entries \<le> max_size\<close>, and \<open>num_entries\<close> is the length of its list. Once
  \<open>num_entries = max_size\<close>, offering any further event (an admissible one in
  particular) to the queue adds one to its counter \<open>drops\<close> (a \<open>size_t\<close>, so the
  addition is that of 64-bit words) and leaves its list, its length and every other
  field as they were; so does a whole dispatch for such a queue in the tree.
\<close>

theorem queue_length_bounded_full_drops:
  "(run vtdtr_init cs = Inr s \<longrightarrow>
      (\<forall>q \<in> set (vtdtr_queue_tree s).
         num_entries q \<le> max_size q \<and> unat (num_entries q) = length (head q) \<and>
         length (head q) \<le> unat (max_size q))) \<and>
   (num_entries q = max_size q \<longrightarrow>
      vtdtr_enqueue_queue mem q e = Inr (q\<lparr>drops := drops q + 1\<rparr>)) \<and>
   (vtdtr_enqueue t e = Inr t' \<and> RB_FIND (vtdtr_queue_tree t) (tmp_queue p) = Some q \<and>
    num_entries q = max_size q \<longrightarrow>
      RB_FIND (vtdtr_queue_tree t') (tmp_queue p) = Some (q\<lparr>drops := drops q + 1\<rparr>))"
proof (intro conjI impI)
  assume "run vtdtr_init cs = Inr s"
  then have "length_inv s" by (rule length_inv_run)
  then show "\<forall>q \<in> set (vtdtr_queue_tree s).
         num_entries q \<le> max_size q \<and> unat (num_entries q) = length (head q) \<and>
         length (head q) \<le> unat (max_size q)"
    by (auto simp: length_inv_def queue_ok_def word_le_nat_alt)
next
  assume "num_entries q = max_size q"
  then show "vtdtr_enqueue_queue mem q e = Inr (q\<lparr>drops := drops q + 1\<rparr>)"
    by (simp add: vtdtr_enqueue_queue_def)
next
  assume a: "vtdtr_enqueue t e = Inr t' \<and>
    RB_FIND (vtdtr_queue_tree t) (tmp_queue p) = Some q \<and> num_entries q = max_size q"
  then obtain qs' where
    loop: "vtdtr_enqueue_loop (m_temp t) (vtdtr_queue_tree t) e = Inr qs'" and
    t': "t' = t\<lparr>vtdtr_queue_tree := qs'\<rparr>"
    by (auto simp: vtdtr_enqueue_def split: sum.splits)
  from a have f: "RB_FIND (vtdtr_queue_tree t) (tmp_queue p) = Some q" by simp
  from vtdtr_enqueue_loop_RB_FIND [OF loop f] obtain q' where
    "vtdtr_enqueue_queue (m_temp t) q e = Inr q'" "RB_FIND qs' (tmp_queue p) = Some q'"
    by blast
  with a t' show "RB_FIND (vtdtr_queue_tree t') (tmp_queue p) = Some (q\<lparr>drops := drops q + 1\<rparr>)"
    by (simp add: vtdtr_enqueue_queue_def)
qed

theorem queue_length_bounded_full_drops_witness:
  "run vtdtr_init calls_fill = Inr state_full \<and>
   vtdtr_queue_tree state_full = [queue_full] \<and>
   num_entries queue_full \<le> max_size queue_full \<and>
   unat (num_entries queue_full) = length (head queue_full) \<and>
   length (head queue_full) \<le> unat (max_size queue_full) \<and>
   num_entries queue_full = max_size queue_full \<and>
   vtdtr_enqueue_queue (m_temp state_full) queue_full 0 = Inr (queue_full\<lparr>drops := 1\<rparr>) \<and>
   vtdtr_enqueue state_full 0 = Inr (state_full\<lparr>vtdtr_queue_tree := [queue_full\<lparr>drops := 1\<rparr>]\<rparr>) \<and>
   RB_FIND (vtdtr_queue_tree state_full) (tmp_queue 1) = Some queue_full \<and>
   RB_FIND (vtdtr_queue_tree (state_full\<lparr>vtdtr_queue_tree := [queue_full\<lparr>drops := 1\<rparr>]\<rparr>))
       (tmp_queue 1)
     = Some (queue_full\<lparr>drops := 1\<rparr>)"
proof -
  note t = queue_length_bounded_full_drops [of calls_fill state_full queue_full
      "m_temp state_full" 0 state_full
      "state_full\<lparr>vtdtr_queue_tree := [queue_full\<lparr>drops := 1\<rparr>]\<rparr>" 1]
  have r: "run vtdtr_init calls_fill = Inr state_full"
    by (rule run_calls_fill)
  have f: "num_entries queue_full = max_size queue_full"
    by (simp add: queue_full_def)
  have d: "vtdtr_enqueue state_full 0
             = Inr (state_full\<lparr>vtdtr_queue_tree := [queue_full\<lparr>drops := 1\<rparr>]\<rparr>)"
    by (simp add: example_defs eval_defs)
  have g: "RB_FIND (vtdtr_queue_tree state_full) (tmp_queue 1) = Some queue_full"
    by (simp add: example_defs eval_defs)
  from t r have A: "\<forall>q \<in> set (vtdtr_queue_tree state_full).
      num_entries q \<le> max_size q \<and> unat (num_entries q) = length (head q) \<and>
      length (head q) \<le> unat (max_size q)"
    by blast
  from t f have B: "vtdtr_enqueue_queue (m_temp state_full) queue_full 0
      = Inr (queue_full\<lparr>drops := drops queue_full + 1\<rparr>)"
    by blast
  from t d g f have C: "RB_FIND
      (vtdtr_queue_tree (state_full\<lparr>vtdtr_queue_tree := [queue_full\<lparr>drops := 1\<rparr>]\<rparr>))
      (tmp_queue 1) = Some (queue_full\<lparr>drops := drops queue_full + 1\<rparr>)"
    by blast
  have z: "drops queue_full = 0"
    by (simp add: queue_full_def)
  have m: "vtdtr_queue_tree state_full = [queue_full]"
    by (simp add: state_full_def)
  from A m have A': "num_entries queue_full \<le> max_size queue_full \<and>
      unat (num_entries queue_full) = length (head queue_full) \<and>
      length (head queue_full) \<le> unat (max_size queue_full)"
    by simp
  from r m A' f B d g C z show ?thesis by simp
qed

text \<open>
  C7. In every state that a run of the module reaches the pids of the queues in the tree
  are pairwise different. \<open>vtdtr_open\<close> by a process that owns a queue fails and changes
  nothing, with \<open>EBUSY\<close> when the caller holds the privilege (the privilege is checked
  first). After a \<open>vtdtr_close\<close> by a process in a reachable state, \<open>vtdtr_open\<close> by that
  process, given the privilege, returns 0 and registers a fresh queue for it.
\<close>

theorem one_queue_per_identity:
  "(run vtdtr_init cs = Inr s \<longrightarrow> distinct (map proc (vtdtr_queue_tree s))) \<and>
   (RB_FIND (vtdtr_queue_tree t) (tmp_queue (td_proc td)) \<noteq> None \<longrightarrow>
      fst (vtdtr_open t td) \<noteq> 0 \<and> snd (vtdtr_open t td) = t \<and>
      (priv_check td = 0 \<longrightarrow> fst (vtdtr_open t td) = EBUSY)) \<and>
   (run vtdtr_init cs = Inr s \<and> vtdtr_close s td = Inr (rc, s') \<and> priv_check td = 0 \<longrightarrow>
      fst (vtdtr_open s' td) = 0 \<and>
      RB_FIND (vtdtr_queue_tree (snd (vtdtr_open s' td))) (tmp_queue (td_proc td))
        = Some (queue_opened (td_proc td)))"
proof (intro conjI impI)
  assume "run vtdtr_init cs = Inr s"
  then show "distinct (map proc (vtdtr_queue_tree s))"
    using pid_inv_run [of cs s] by (simp add: pid_inv_def)
next
  assume "RB_FIND (vtdtr_queue_tree t) (tmp_queue (td_proc td)) \<noteq> None"
  then show "fst (vtdtr_open t td) \<noteq> 0" "snd (vtdtr_open t td) = t"
    by (auto simp: vtdtr_open_def Let_def EBUSY_def)
next
  assume "RB_FIND (vtdtr_queue_tree t) (tmp_queue (td_proc td)) \<noteq> None" "priv_check td = 0"
  then show "fst (vtdtr_open t td) = EBUSY"
    by (auto simp: vtdtr_open_def Let_def)
next
  assume a: "run vtdtr_init cs = Inr s \<and> vtdtr_close s td = Inr (rc, s') \<and> priv_check td = 0"
  then have "pid_inv s" using pid_inv_run [of cs s] by simp
  with a have n: "RB_FIND (vtdtr_queue_tree s') (tmp_queue (td_proc td)) = None"
    by (simp add: vtdtr_close_no_queue)
  with a show "fst (vtdtr_open s' td) = 0"
    by (simp add: vtdtr_open_def Let_def)
  from n a show "RB_FIND (vtdtr_queue_tree (snd (vtdtr_open s' td))) (tmp_queue (td_proc td))
        = Some (queue_opened (td_proc td))"
    by (simp add: vtdtr_open_def Let_def RB_FIND_RB_INSERT queue_opened_def tmp_queue_def)
qed

theorem one_queue_per_identity_witness:
  "run vtdtr_init calls_fill = Inr state_full \<and>
   distinct (map proc (vtdtr_queue_tree state_full)) \<and>
   RB_FIND (vtdtr_queue_tree state_full) (tmp_queue (td_proc consumer_td)) = Some queue_full \<and>
   priv_check consumer_td = 0 \<and>
   vtdtr_open state_full consumer_td = (EBUSY, state_full) \<and>
   vtdtr_close state_full consumer_td
     = Inr (0, \<lparr>vtdtr_queue_tree = [], first = 0, m_temp = Map.empty\<rparr>) \<and>
   vtdtr_open \<lparr>vtdtr_queue_tree = [], first = 0, m_temp = Map.empty\<rparr> consumer_td
     = (0, \<lparr>vtdtr_queue_tree = [queue_opened 1], first = 0, m_temp = Map.empty\<rparr>)"
proof -
  note t = one_queue_per_identity [of calls_fill state_full state_full consumer_td 0
      "\<lparr>vtdtr_queue_tree = [], first = 0, m_temp = Map.empty\<rparr>"]
  have r: "run vtdtr_init calls_fill = Inr state_full"
    by (rule run_calls_fill)
  have f: "RB_FIND (vtdtr_queue_tree state_full) (tmp_queue (td_proc consumer_td))
             = Some queue_full"
    by (simp add: example_defs eval_defs)
  have p: "priv_check consumer_td = 0"
    by (simp add: consumer_td_def priv_check_def)
  have c: "vtdtr_close state_full consumer_td
     = Inr (0, \<lparr>vtdtr_queue_tree = [], first = 0, m_temp = Map.empty\<rparr>)"
    by (simp add: example_defs eval_defs)
  from t r have A: "distinct (map proc (vtdtr_queue_tree state_full))"
    by blast
  from t f p have B: "fst (vtdtr_open state_full consumer_td) = EBUSY"
    "snd (vtdtr_open state_full consumer_td) = state_full"
    by simp_all
  from t r c p have C:
    "fst (vtdtr_open \<lparr>vtdtr_queue_tree = [], first = 0, m_temp = Map.empty\<rparr> consumer_td) = 0"
    by blast
  have D: "snd (vtdtr_open \<lparr>vtdtr_queue_tree = [], first = 0, m_temp = Map.empty\<rparr> consumer_td)
      = \<lparr>vtdtr_queue_tree = [queue_opened 1], first = 0, m_temp = Map.empty\<rparr>"
    by (simp add: example_defs eval_defs)
  from r A f p B c C D show ?thesis
    by (simp add: prod_eq_iff)
qed

text \<open>
  C8. \<open>vtdtr_construct_entry\<close> stores the caller's pointer and \<open>vtdtr_flush\<close> frees the
  event of every entry. An event dispatched while no queue admits it stays allocated
  with no entry that points to it. If the producer frees the event after the dispatch,
  the close of the queue that admitted it frees it a second time. Two queues that admit
  one event hold the same address, and closing the second frees what closing the first
  has freed.
\<close>

theorem shared_event_pointer_leaks_or_double_frees:
  "run vtdtr_init [EvAlloc 0 event_a, Enqueue 0]
     = Inr \<lparr>vtdtr_queue_tree = [], first = 1, m_temp = [0 \<mapsto> event_a]\<rparr> \<and>
   run vtdtr_init (calls_fill @ [EvFree 0]) = Inr (state_full\<lparr>m_temp := Map.empty\<rparr>) \<and>
   run vtdtr_init (calls_fill @ [EvFree 0, Close consumer_td]) = Inl DoubleFree \<and>
   vtdtr_enqueue state_shared 0
     = Inr (state_shared\<lparr>vtdtr_queue_tree :=
              [(queue_configured 1)\<lparr>head := [\<lparr>event = 0\<rparr>], num_entries := 1\<rparr>,
               (queue_configured 2)\<lparr>head := [\<lparr>event = 0\<rparr>], num_entries := 1\<rparr>]\<rparr>) \<and>
   run state_shared [Enqueue 0, Close consumer_td]
     = Inr \<lparr>vtdtr_queue_tree =
              [(queue_configured 2)\<lparr>head := [\<lparr>event = 0\<rparr>], num_entries := 1\<rparr>],
            first = 0, m_temp = Map.empty\<rparr> \<and>
   run state_shared [Enqueue 0, Close consumer_td, Close other_td] = Inl DoubleFree"
  by (simp add: example_defs eval_defs)

text \<open>
  C9. A dispatch that returns has run the loop body once for every queue of the tree, in
  the order of the tree: the tree afterwards holds, position by position, the result of
  offering the event to the queue that was there, which is admitted, dropped or ignored.
  The pids in the tree, the flag \<open>first\<close> and the store of events are as before, so the
  module keeps nothing of the event outside the queues. The dispatch returns whenever
  the event is allocated and its type is below 64 or above \<open>MAX_BITSHIFT\<close>, the cases in
  which the subscription test is defined.
\<close>

theorem dispatch_offers_each_queue_once:
  "(vtdtr_enqueue s e = Inr s' \<longrightarrow>
      list_all2 (\<lambda>q q'. vtdtr_enqueue_queue (m_temp s) q e = Inr q' \<and> offered q e q')
        (vtdtr_queue_tree s) (vtdtr_queue_tree s') \<and>
      map proc (vtdtr_queue_tree s') = map proc (vtdtr_queue_tree s) \<and>
      first s' = first s \<and> m_temp s' = m_temp s) \<and>
   (m_temp s e = Some ev \<and> (ev_type ev < 64 \<or> MAX_BITSHIFT < ev_type ev) \<longrightarrow>
      (\<exists>s''. vtdtr_enqueue s e = Inr s''))"
proof (intro conjI impI)
  assume "vtdtr_enqueue s e = Inr s'"
  then obtain qs' where
    loop: "vtdtr_enqueue_loop (m_temp s) (vtdtr_queue_tree s) e = Inr qs'" and
    s': "s' = s\<lparr>vtdtr_queue_tree := qs'\<rparr>"
    by (auto simp: vtdtr_enqueue_def split: sum.splits)
  from vtdtr_enqueue_loop_offered [OF loop] s'
  show "list_all2 (\<lambda>q q'. vtdtr_enqueue_queue (m_temp s) q e = Inr q' \<and> offered q e q')
        (vtdtr_queue_tree s) (vtdtr_queue_tree s')"
    by simp
  from vtdtr_enqueue_loop_proc [OF loop] s'
  show "map proc (vtdtr_queue_tree s') = map proc (vtdtr_queue_tree s)"
    by simp
  from s' show "first s' = first s" "m_temp s' = m_temp s"
    by simp_all
next
  assume a: "m_temp s e = Some ev \<and> (ev_type ev < 64 \<or> MAX_BITSHIFT < ev_type ev)"
  then obtain qs' where "vtdtr_enqueue_loop (m_temp s) (vtdtr_queue_tree s) e = Inr qs'"
    using vtdtr_enqueue_loop_returns [of "m_temp s" e ev "vtdtr_queue_tree s"] by blast
  then show "\<exists>s''. vtdtr_enqueue s e = Inr s''"
    by (simp add: vtdtr_enqueue_def)
qed

theorem dispatch_offers_each_queue_once_witness:
  "vtdtr_enqueue state_two 0
     = Inr (state_two\<lparr>vtdtr_queue_tree := [queue_full, (queue_opened 2)\<lparr>drops := 1\<rparr>]\<rparr>) \<and>
   m_temp state_two 0 = Some event_a \<and> ev_type event_a < 64 \<and>
   list_all2 (\<lambda>q q'. vtdtr_enqueue_queue (m_temp state_two) q 0 = Inr q' \<and> offered q 0 q')
     (vtdtr_queue_tree state_two) [queue_full, (queue_opened 2)\<lparr>drops := 1\<rparr>] \<and>
   map proc [queue_full, (queue_opened 2)\<lparr>drops := 1\<rparr>] = [1, 2]"
proof -
  note t = dispatch_offers_each_queue_once [of state_two 0
      "state_two\<lparr>vtdtr_queue_tree := [queue_full, (queue_opened 2)\<lparr>drops := 1\<rparr>]\<rparr>" event_a]
  have d: "vtdtr_enqueue state_two 0
     = Inr (state_two\<lparr>vtdtr_queue_tree := [queue_full, (queue_opened 2)\<lparr>drops := 1\<rparr>]\<rparr>)"
    by (simp add: example_defs eval_defs)
  have m: "m_temp state_two 0 = Some event_a" "ev_type event_a < 64"
    by (simp_all add: state_two_def event_a_def)
  from t d have A: "list_all2
      (\<lambda>q q'. vtdtr_enqueue_queue (m_temp state_two) q 0 = Inr q' \<and> offered q 0 q')
      (vtdtr_queue_tree state_two)
      (vtdtr_queue_tree
        (state_two\<lparr>vtdtr_queue_tree := [queue_full, (queue_opened 2)\<lparr>drops := 1\<rparr>]\<rparr>))"
    by blast
  have p: "map proc [queue_full, (queue_opened 2)\<lparr>drops := 1\<rparr>] = [1, 2]"
    by (simp add: example_defs)
  from d m A p show ?thesis by simp
qed

text \<open>
  C10. When the first \<open>VTDTRIOC_CONF\<close> call of the module comes from a process that owns
  no queue, it returns \<open>ENOENT\<close> and changes nothing but the flag \<open>first\<close>, which it
  clears before the lookup. After any further run of the module, a \<open>VTDTRIOC_CONF\<close> call
  by any thread with any argument returns \<open>EBUSY\<close> and leaves the state as it is.
\<close>

theorem first_configure_consumes_gate:
  assumes "first s \<noteq> 0"
    and "RB_FIND (vtdtr_queue_tree s) (tmp_queue (td_proc td)) = None"
    and "run (snd (vtdtr_ioctl s VTDTRIOC_CONF conf td)) cs = Inr s'"
  shows "vtdtr_ioctl s VTDTRIOC_CONF conf td = (ENOENT, s\<lparr>first := 0\<rparr>) \<and>
         vtdtr_ioctl s' VTDTRIOC_CONF conf' td' = (EBUSY, s')"
proof -
  from assms(1,2) have r: "vtdtr_ioctl s VTDTRIOC_CONF conf td = (ENOENT, s\<lparr>first := 0\<rparr>)"
    by (simp add: vtdtr_ioctl_def)
  with assms(3) have "run (s\<lparr>first := 0\<rparr>) cs = Inr s'" by simp
  then have "first s' = 0"
    using gate_closed_run [of "s\<lparr>first := 0\<rparr>" cs s'] by simp
  then have "vtdtr_ioctl s' VTDTRIOC_CONF conf' td' = (EBUSY, s')"
    by (simp add: vtdtr_ioctl_def)
  with r show ?thesis by simp
qed

theorem first_configure_consumes_gate_witness:
  "first vtdtr_init \<noteq> 0 \<and>
   RB_FIND (vtdtr_queue_tree vtdtr_init) (tmp_queue (td_proc consumer_td)) = None \<and>
   run (snd (vtdtr_ioctl vtdtr_init VTDTRIOC_CONF None consumer_td)) [Open consumer_td]
     = Inr \<lparr>vtdtr_queue_tree = [queue_opened 1], first = 0, m_temp = Map.empty\<rparr> \<and>
   vtdtr_ioctl vtdtr_init VTDTRIOC_CONF None consumer_td = (ENOENT, vtdtr_init\<lparr>first := 0\<rparr>) \<and>
   vtdtr_ioctl \<lparr>vtdtr_queue_tree = [queue_opened 1], first = 0, m_temp = Map.empty\<rparr>
       VTDTRIOC_CONF (Some conf_small) consumer_td
     = (EBUSY, \<lparr>vtdtr_queue_tree = [queue_opened 1], first = 0, m_temp = Map.empty\<rparr>)"
proof -
  have a: "first vtdtr_init \<noteq> 0"
    by (simp add: vtdtr_init_def)
  have b: "RB_FIND (vtdtr_queue_tree vtdtr_init) (tmp_queue (td_proc consumer_td)) = None"
    by (simp add: vtdtr_init_def)
  have c: "run (snd (vtdtr_ioctl vtdtr_init VTDTRIOC_CONF None consumer_td)) [Open consumer_td]
     = Inr \<lparr>vtdtr_queue_tree = [queue_opened 1], first = 0, m_temp = Map.empty\<rparr>"
    by (simp add: example_defs eval_defs)
  from first_configure_consumes_gate [OF a b c, of "Some conf_small" consumer_td] a b c
  show ?thesis by simp
qed

end
